theory Spec2Isabelle
  imports Complex_Main "HOL-Library.Sublist"
begin

section \<open>Python values used by \<open>llava_pretrain_data.py\<close>\<close>

text \<open>
  Exceptions are values.  Every \<open>raise\<close>, failed \<open>assert\<close> and failing
  library call of the module is a branch of the model that returns \<open>Inl\<close>.
\<close>

datatype error =
    AssertionError
  | TypeError
  | ValueError
  | IndexError
  | KeyError
  | RuntimeError
  | OverflowError
  | IOError

subsection \<open>Strings\<close>

text \<open>
  A Python \<open>str\<close> is a \<open>string\<close>; a character is a code point below 256.
  \<open>isspace\<close> lists the code points below 256 that \<open>str.strip()\<close> removes:
  tab, line feed, vertical tab, form feed, carriage return, the four separators
  0x1C..0x1F, space, NEL and the no-break space.
\<close>

definition isspace :: "char \<Rightarrow> bool" where
  "isspace c \<longleftrightarrow>
     c \<in> {CHR 0x09, CHR 0x0A, CHR 0x0B, CHR 0x0C, CHR 0x0D,
          CHR 0x1C, CHR 0x1D, CHR 0x1E, CHR 0x1F, CHR 0x20, CHR 0x85, CHR 0xA0}"

definition lstrip :: "string \<Rightarrow> string" where
  "lstrip s = dropWhile isspace s"

definition rstrip :: "string \<Rightarrow> string" where
  "rstrip s = rev (dropWhile isspace (rev s))"

text \<open>\<open>s.strip()\<close>: leading and trailing whitespace removed.\<close>

definition strip :: "string \<Rightarrow> string" where
  "strip s = rstrip (lstrip s)"

text \<open>\<open>sub in s\<close>: \<open>sub\<close> occurs in \<open>s\<close> as a contiguous substring.\<close>

fun str_contains :: "string \<Rightarrow> string \<Rightarrow> bool" where
  "str_contains sub [] = (sub = [])"
| "str_contains sub (c # cs) = (prefix sub (c # cs) \<or> str_contains sub cs)"

text \<open>
  \<open>s.replace(old, new)\<close>: one pass from the left over non-overlapping occurrences;
  the text produced by a replacement is not scanned again.  With an empty
  \<open>old\<close> Python inserts \<open>new\<close> before every character and at the end.
\<close>

function str_replace :: "string \<Rightarrow> string \<Rightarrow> string \<Rightarrow> string" where
  "str_replace old new [] = (if old = [] then new else [])"
| "str_replace old new (c # cs) =
     (if old = [] then new @ c # str_replace old new cs
      else if prefix old (c # cs)
        then new @ str_replace old new (drop (length old) (c # cs))
        else c # str_replace old new cs)"
  by pat_completeness auto
termination
  by (relation "measure (\<lambda>(old, new, s). length s)") auto

subsection \<open>Integers\<close>

text \<open>
  Python ints are unbounded; a tensor of token ids holds 64-bit signed
  integers.  \<open>int64 x\<close> says that \<open>x\<close> is a value of such a tensor.
\<close>

definition int64 :: "int \<Rightarrow> bool" where
  "int64 x \<longleftrightarrow> - (2 ^ 63) \<le> x \<and> x < 2 ^ 63"

text \<open>\<open>n.bit_length()\<close> of a natural number.\<close>

fun bit_length :: "nat \<Rightarrow> nat" where
  "bit_length n = (if n = 0 then 0 else Suc (bit_length (n div 2)))"

declare bit_length.simps [simp del]

text \<open>
  The double nearest to a Python int, as the integer it denotes: an int of
  magnitude up to \<open>2 ^ 53\<close> is a double; a larger one keeps its 53 leading
  bits, rounded half to even.
\<close>

definition round_to_double :: "int \<Rightarrow> int" where
  "round_to_double v =
     (if \<bar>v\<bar> \<le> 2 ^ 53 then v
      else
        let e = bit_length (nat \<bar>v\<bar>) - 53;
            q = \<bar>v\<bar> div 2 ^ e;
            r = \<bar>v\<bar> mod 2 ^ e;
            q' = (if 2 ^ e < 2 * r \<or> (2 * r = 2 ^ e \<and> odd q) then q + 1 else q)
        in sgn v * q' * 2 ^ e)"

text \<open>
  A Python int passed where the library takes a \<open>float\<close>: an int that rounds
  beyond the largest double raises \<open>OverflowError\<close>.
\<close>

definition py_float :: "int \<Rightarrow> error + int" where
  "py_float v =
     (if 2 ^ 1024 - 2 ^ 970 \<le> \<bar>v\<bar> then Inl OverflowError else Inr (round_to_double v))"

subsection \<open>Objects and references\<close>

text \<open>
  A turn of a conversation is a Python dict with the keys \<open>from\<close> and
  \<open>value\<close>.  The module assigns to \<open>sentence['value']\<close> in place, so turns live
  in a store and lists hold their addresses.  The lists themselves are never
  assigned to; they are values.
\<close>

record sentence =
  sfrom :: string
  svalue :: string

type_synonym addr = nat

record store =
  objs :: "addr \<Rightarrow> sentence"
  next_free :: addr

section \<open>\<open>preprocess_multimodal\<close>\<close>

definition DEFAULT_IMAGE_TOKEN :: string where
  "DEFAULT_IMAGE_TOKEN = ''<image>''"

definition IGNORE_INDEX :: int where
  "IGNORE_INDEX = - 100"

text \<open>The body of the inner loop, on the dict \<open>sentence\<close>.\<close>

definition preprocess_sentence :: "sentence \<Rightarrow> sentence" where
  "preprocess_sentence sentence =
     (if str_contains DEFAULT_IMAGE_TOKEN (svalue sentence) then
        let s1 = sentence\<lparr>svalue := strip (str_replace DEFAULT_IMAGE_TOKEN [] (svalue sentence))\<rparr>;
            s2 = s1\<lparr>svalue := DEFAULT_IMAGE_TOKEN @ [CHR 0x0A] @ svalue s1\<rparr>;
            s3 = s2\<lparr>svalue := strip (svalue s2)\<rparr>;
            s4 = s3\<lparr>svalue := str_replace DEFAULT_IMAGE_TOKEN [] (svalue s3)\<rparr>;
            s5 = s4\<lparr>svalue := strip (svalue s4)\<rparr>
        in s5
      else sentence)"

text \<open>\<open>for sentence in source\<close>: each referenced dict is updated in the store.\<close>

fun preprocess_source :: "store \<Rightarrow> addr list \<Rightarrow> store" where
  "preprocess_source st [] = st"
| "preprocess_source st (a # source) =
     preprocess_source (st\<lparr>objs := (objs st)(a := preprocess_sentence (objs st a))\<rparr>) source"

text \<open>
  \<open>for source in sources\<close>.  The function returns \<open>sources\<close> itself, the same
  references; the model returns the store they point into.
\<close>

fun preprocess_multimodal :: "store \<Rightarrow> addr list list \<Rightarrow> store" where
  "preprocess_multimodal st [] = st"
| "preprocess_multimodal st (source # sources) =
     preprocess_multimodal (preprocess_source st source) sources"

section \<open>\<open>preprocess_plain\<close>\<close>

text \<open>
  The tokenizer is an external collaborator: \<open>tokenize\<close> is
  \<open>tokenizer(prompt)["input_ids"]\<close>, a Python list of ids.
\<close>

record tokenizer =
  tokenize :: "string \<Rightarrow> int list"
  pad_token_id :: int
  eos_token_id :: int
  model_max_length :: int

text \<open>The dict returned by \<open>preprocess_plain\<close>: two tensors of ids, one row per source.\<close>

record data_dict =
  input_ids :: "int list list"
  labels :: "int list list"

text \<open>The assignment \<open>source[0]['value'] = ""\<close>: a write to the store.\<close>

definition blank_first :: "store \<Rightarrow> addr list \<Rightarrow> store" where
  "blank_first st source =
     st\<lparr>objs := (objs st)(source ! 0 := (objs st (source ! 0))\<lparr>svalue := []\<rparr>)\<rparr>"

text \<open>
  The first loop.  \<open>sep\<close> is \<open>conversation_lib.default_conversation.sep\<close>, a
  constant of another module.  The concatenation reads both turns after the
  first one is blanked.
\<close>

fun plain_conversations :: "string \<Rightarrow> store \<Rightarrow> addr list list \<Rightarrow> (error + string list) \<times> store" where
  "plain_conversations sep st [] = (Inr [], st)"
| "plain_conversations sep st (source # sources) =
     (if length source \<noteq> 2 then (Inl AssertionError, st)
      else
        let st1 = blank_first st source;
            conversation = svalue (objs st1 (source ! 0)) @ svalue (objs st1 (source ! 1)) @ sep
        in (case plain_conversations sep st1 sources of
              (Inl e, st2) \<Rightarrow> (Inl e, st2)
            | (Inr conversations, st2) \<Rightarrow> (Inr (conversation # conversations), st2)))"

text \<open>The length of the prefix to mask: the tokenized length of the first turn.\<close>

definition tokenized_len :: "tokenizer \<Rightarrow> store \<Rightarrow> addr list \<Rightarrow> nat" where
  "tokenized_len tokenizer st source = length (tokenize tokenizer (svalue (objs st (source ! 0))))"

text \<open>
  The second loop, over \<open>zip(targets, sources)\<close>.  Each \<open>target\<close> is a Python
  list, and \<open>target[:tokenized_len] = IGNORE_INDEX\<close> assigns an int to a list
  slice, which raises \<open>TypeError\<close> whenever it is executed.
\<close>

fun mask_targets :: "tokenizer \<Rightarrow> store \<Rightarrow> int list list \<Rightarrow> addr list list \<Rightarrow> error + int list list" where
  "mask_targets tokenizer st [] sources = Inr []"
| "mask_targets tokenizer st targets [] = Inr targets"
| "mask_targets tokenizer st (target # targets) (source # sources) =
     (if tokenized_len tokenizer st source > 0 then Inl TypeError
      else (case mask_targets tokenizer st targets sources of
              Inl e \<Rightarrow> Inl e
            | Inr targets' \<Rightarrow> Inr (target # targets')))"

text \<open>
  \<open>torch.tensor\<close> of a list of lists of Python ints: the rows must have one
  length, and the result is an int64 tensor, so every id must be an int64
  value.
\<close>

definition torch_tensor :: "int list list \<Rightarrow> error + int list list" where
  "torch_tensor rows =
     (if \<not> list_all (\<lambda>r. length r = length (hd rows)) rows then Inl ValueError
      else if \<not> list_all (list_all int64) rows then Inl RuntimeError
      else Inr rows)"

definition preprocess_plain ::
  "string \<Rightarrow> tokenizer \<Rightarrow> store \<Rightarrow> addr list list \<Rightarrow> (error + data_dict) \<times> store" where
  "preprocess_plain sep tokenizer st sources =
     (case plain_conversations sep st sources of
        (Inl e, st1) \<Rightarrow> (Inl e, st1)
      | (Inr conversations, st1) \<Rightarrow>
          let ids = map (\<lambda>prompt. tokenize tokenizer prompt @ [eos_token_id tokenizer]) conversations;
              targets = ids
          in (case mask_targets tokenizer st1 targets sources of
                Inl e \<Rightarrow> (Inl e, st1)
              | Inr targets' \<Rightarrow>
                  (case torch_tensor ids of
                     Inl e \<Rightarrow> (Inl e, st1)
                   | Inr t1 \<Rightarrow>
                       (case torch_tensor targets' of
                          Inl e \<Rightarrow> (Inl e, st1)
                        | Inr t2 \<Rightarrow> (Inr \<lparr>input_ids = t1, labels = t2\<rparr>, st1)))))"

section \<open>Images\<close>

text \<open>
  A PIL image after \<open>convert('RGB')\<close>: its mode, its size and a colour at every
  coordinate \<open>(x, y)\<close> with \<open>x < width\<close> and \<open>y < height\<close>.
\<close>

type_synonym colour = "int \<times> int \<times> int"

record pil_image =
  mode :: string
  width :: nat
  height :: nat
  pixel :: "nat \<Rightarrow> nat \<Rightarrow> colour"

text \<open>\<open>Image.new(mode, (w, h), color)\<close>.\<close>

definition Image_new :: "string \<Rightarrow> nat \<times> nat \<Rightarrow> colour \<Rightarrow> pil_image" where
  "Image_new m sz color = \<lparr>mode = m, width = fst sz, height = snd sz, pixel = (\<lambda>x y. color)\<rparr>"

text \<open>
  \<open>result.paste(im, (x0, y0))\<close>: pixel \<open>(x, y)\<close> of \<open>im\<close> lands on
  \<open>(x0 + x, y0 + y)\<close> of \<open>result\<close>; the size of \<open>result\<close> stays.
\<close>

definition paste :: "pil_image \<Rightarrow> pil_image \<Rightarrow> nat \<times> nat \<Rightarrow> pil_image" where
  "paste result im box =
     result\<lparr>pixel := (\<lambda>x y.
        if fst box \<le> x \<and> x < fst box + width im \<and> snd box \<le> y \<and> y < snd box + height im
        then pixel im (x - fst box) (y - snd box)
        else pixel result x y)\<rparr>"

definition expand2square :: "pil_image \<Rightarrow> colour \<Rightarrow> pil_image" where
  "expand2square pil_img background_color =
     (if width pil_img = height pil_img then pil_img
      else if width pil_img > height pil_img then
        paste (Image_new (mode pil_img) (width pil_img, width pil_img) background_color)
          pil_img (0, (width pil_img - height pil_img) div 2)
      else
        paste (Image_new (mode pil_img) (height pil_img, height pil_img) background_color)
          pil_img ((height pil_img - width pil_img) div 2, 0))"

text \<open>
  The channel means are Python floats; the model takes them as reals.  \<open>int(x)\<close>
  truncates towards zero.
\<close>

definition IMAGENET_MEAN :: "real \<times> real \<times> real" where
  "IMAGENET_MEAN = (0.485, 0.456, 0.406)"

definition py_int :: "real \<Rightarrow> int" where
  "py_int x = (if 0 \<le> x then \<lfloor>x\<rfloor> else \<lceil>x\<rceil>)"

definition background_color_of :: "real \<times> real \<times> real \<Rightarrow> colour" where
  "background_color_of mean =
     (case mean of (r, g, b) \<Rightarrow> (py_int (r * 255), py_int (g * 255), py_int (b * 255)))"

section \<open>Tensors\<close>

text \<open>A tensor of pixel values: its shape and its elements in row-major order.\<close>

datatype 'a tensor = Tensor (tshape: "nat list") (tdata: "'a list")

text \<open>\<open>torch.zeros(3, n, n)\<close>.\<close>

definition torch_zeros3 :: "nat \<Rightarrow> ('a::zero) tensor" where
  "torch_zeros3 n = Tensor [3, n, n] (replicate (3 * n * n) 0)"

text \<open>\<open>torch.stack\<close> of tensors of one shape: a new leading dimension.\<close>

definition torch_stack :: "'a tensor list \<Rightarrow> 'a tensor" where
  "torch_stack ts = Tensor (length ts # tshape (hd ts)) (concat (map tdata ts))"

section \<open>The dataset\<close>

text \<open>
  A record of the JSON file.  \<open>item_image = None\<close> is a record without the
  key \<open>image\<close>; \<open>conversations\<close> are the addresses of its turns.
\<close>

record item =
  item_image :: "string option"
  conversations :: "addr list"

text \<open>The CLIP image processor: its crop size and its \<open>preprocess\<close>.\<close>

record 'a processor =
  crop_height :: nat
  crop_width :: nat
  preprocess :: "pil_image \<Rightarrow> 'a tensor"

record 'a dataset =
  ds_tokenizer :: tokenizer
  pad2square :: bool
  background_color :: colour
  image_root :: string
  list_data_dict :: "item list"
  ds_processor :: "'a processor"

text \<open>
  \<open>__init__\<close>.  \<open>data\<close> is the content of the JSON file as \<open>json.load\<close> returns
  it, \<open>proc\<close> the processor that \<open>from_pretrained\<close> returns.
\<close>

definition dataset_init :: "tokenizer \<Rightarrow> bool \<Rightarrow> item list \<Rightarrow> 'a processor \<Rightarrow> error + 'a dataset" where
  "dataset_init tok p2s data proc =
     (let kept = filter (\<lambda>item. item_image item \<noteq> None) data
      in if crop_height proc = crop_width proc
         then Inr \<lparr>ds_tokenizer = tok, pad2square = p2s,
                   background_color = background_color_of IMAGENET_MEAN,
                   image_root = ''/mnt/bn/vgfm2/test_dit/pretraining_data'',
                   list_data_dict = kept, ds_processor = proc\<rparr>
         else Inl AssertionError)"

text \<open>\<open>__len__\<close>.\<close>

definition dataset_len :: "'a dataset \<Rightarrow> nat" where
  "dataset_len self = length (list_data_dict self)"

subsection \<open>\<open>copy.deepcopy\<close>\<close>

text \<open>
  A dict is copied to a fresh address; the memo maps a dict already copied to
  its copy, so sharing inside the copied value is kept.
\<close>

fun deepcopy_source ::
  "(addr \<times> addr) list \<Rightarrow> store \<Rightarrow> addr list \<Rightarrow> addr list \<times> (addr \<times> addr) list \<times> store" where
  "deepcopy_source memo st [] = ([], memo, st)"
| "deepcopy_source memo st (a # source) =
     (case map_of memo a of
        Some a' \<Rightarrow>
          (case deepcopy_source memo st source of
             (source', memo', st') \<Rightarrow> (a' # source', memo', st'))
      | None \<Rightarrow>
          let a' = next_free st;
              st1 = st\<lparr>objs := (objs st)(a' := objs st a), next_free := Suc a'\<rparr>
          in (case deepcopy_source ((a, a') # memo) st1 source of
                (source', memo', st') \<Rightarrow> (a' # source', memo', st')))"

fun deepcopy_sources ::
  "(addr \<times> addr) list \<Rightarrow> store \<Rightarrow> addr list list \<Rightarrow> addr list list \<times> (addr \<times> addr) list \<times> store" where
  "deepcopy_sources memo st [] = ([], memo, st)"
| "deepcopy_sources memo st (source # sources) =
     (case deepcopy_source memo st source of
        (source', memo1, st1) \<Rightarrow>
          (case deepcopy_sources memo1 st1 sources of
             (sources', memo2, st2) \<Rightarrow> (source' # sources', memo2, st2)))"

definition deepcopy :: "store \<Rightarrow> addr list list \<Rightarrow> addr list list \<times> store" where
  "deepcopy st sources =
     (case deepcopy_sources [] st sources of (sources', memo, st') \<Rightarrow> (sources', st'))"

subsection \<open>\<open>__getitem__\<close>\<close>

text \<open>\<open>xs[i]\<close> for a Python int \<open>i\<close>: negative indices count from the end.\<close>

definition py_index :: "'a list \<Rightarrow> int \<Rightarrow> error + 'a" where
  "py_index xs i =
     (if 0 \<le> i \<and> i < int (length xs) then Inr (xs ! nat i)
      else if i < 0 \<and> - int (length xs) \<le> i then Inr (xs ! nat (int (length xs) + i))
      else Inl IndexError)"

text \<open>\<open>os.path.join(a, b)\<close> on POSIX.\<close>

definition os_path_join :: "string \<Rightarrow> string \<Rightarrow> string" where
  "os_path_join a b =
     (if prefix ''/'' b then b
      else if a = [] \<or> suffix ''/'' a then a @ b
      else a @ ''/'' @ b)"

text \<open>
  What the module takes from outside: \<open>img_open path\<close> is
  \<open>Image.open(path).convert('RGB')\<close>, \<open>img_resize\<close> the bicubic resize, and
  \<open>conv_sep\<close> the separator of the default conversation template.
\<close>

record env =
  img_open :: "string \<Rightarrow> error + pil_image"
  img_resize :: "pil_image \<Rightarrow> nat \<times> nat \<Rightarrow> pil_image"
  conv_sep :: string

text \<open>The value of the key \<open>image\<close> of an example: absent, or a tensor or \<open>None\<close>.\<close>

datatype 'a image_field = NoKey | Present "'a tensor option"

text \<open>
  One tokenized example: what \<open>__getitem__\<close> returns and \<open>collate_fn\<close> takes.
  \<open>inst_input_ids\<close> and \<open>inst_labels\<close> are the elements of int64 tensors.
\<close>

record 'a example =
  inst_input_ids :: "int list"
  inst_labels :: "int list"
  inst_image :: "'a image_field"

text \<open>
  \<open>__getitem__(i)\<close> for an int \<open>i\<close>, so both \<open>isinstance(i, int)\<close> tests are
  true.  The result carries the store, also when an exception is raised.
\<close>

definition getitem :: "env \<Rightarrow> ('a::zero) dataset \<Rightarrow> store \<Rightarrow> int \<Rightarrow> (error + 'a example) \<times> store" where
  "getitem e self st i =
     (case py_index (list_data_dict self) i of
        Inl err \<Rightarrow> (Inl err, st)
      | Inr record_i \<Rightarrow>
          let sources = [record_i] in
          if length sources \<noteq> 1 then (Inl AssertionError, st)
          else (case item_image (sources ! 0) of
             None \<Rightarrow> (Inl AssertionError, st)
           | Some image_file \<Rightarrow>
              (case img_open e (os_path_join (image_root self) image_file) of
                 Inl err \<Rightarrow> (Inl err, st)
               | Inr image0 \<Rightarrow>
                  let target_size = crop_height (ds_processor self);
                      image1 = (if pad2square self
                                then expand2square image0 (background_color self) else image0);
                      image2 = img_resize e image1 (target_size, target_size);
                      image3 = preprocess (ds_processor self) image2
                  in (case deepcopy st (map conversations sources) of
                        (copied, st1) \<Rightarrow>
                          let st2 = preprocess_multimodal st1 copied
                          in (case preprocess_plain (conv_sep e) (ds_tokenizer self) st2 copied of
                                (Inl err, st3) \<Rightarrow> (Inl err, st3)
                              | (Inr dd, st3) \<Rightarrow>
                                  (case (py_index (input_ids dd) 0, py_index (labels dd) 0) of
                                     (Inr ids, Inr labs) \<Rightarrow>
                                       (Inr \<lparr>inst_input_ids = ids, inst_labels = labs,
                                             inst_image =
                                               (case item_image record_i of
                                                  Some f \<Rightarrow> Present (Some image3)
                                                | None \<Rightarrow> Present (Some (torch_zeros3 target_size)))\<rparr>,
                                        st3)
                                   | _ \<Rightarrow> (Inl IndexError, st3)))))))"

section \<open>\<open>collate_fn\<close>\<close>

text \<open>The longest sequence of a batch.\<close>

definition max_len :: "'a list list \<Rightarrow> nat" where
  "max_len seqs = foldr (\<lambda>s m. max (length s) m) seqs 0"

text \<open>
  \<open>pad_sequence(seqs, batch_first=True, padding_value=v)\<close>: every sequence is
  padded on the right to the longest.  The library takes \<open>padding_value\<close> as a
  \<open>float\<close> and fills an int64 tensor with it: the sequences are padded with
  the double nearest to \<open>v\<close>, which must be an int64 value.  An empty list
  of sequences is an error.
\<close>

definition pad_sequence :: "int list list \<Rightarrow> int \<Rightarrow> error + int list list" where
  "pad_sequence seqs padding_value =
     (case py_float padding_value of
        Inl err \<Rightarrow> Inl err
      | Inr d \<Rightarrow>
          if seqs = [] then Inl RuntimeError
          else if \<not> int64 d then Inl RuntimeError
          else Inr (map (\<lambda>s. s @ replicate (max_len seqs - length s) d) seqs))"

text \<open>\<open>t.shape[-1]\<close> of a tensor with two dimensions, given by its rows.\<close>

definition shape_last :: "'a list list \<Rightarrow> nat" where
  "shape_last t = (case t of [] \<Rightarrow> 0 | r # _ \<Rightarrow> length r)"

text \<open>\<open>xs[:k]\<close> for a Python int \<open>k\<close>: a negative \<open>k\<close> counts from the end.\<close>

definition py_slice_to :: "int \<Rightarrow> 'a list \<Rightarrow> 'a list" where
  "py_slice_to k xs = (if 0 \<le> k then take (nat k) xs else take (length xs - nat (- k)) xs)"

text \<open>The entry \<open>images\<close> of a batch: one stacked tensor, or the list as it is.\<close>

datatype 'a images = Stacked "'a tensor" | Unstacked "'a tensor option list"

record 'a batch =
  batch_input_ids :: "int list list"
  batch_labels :: "int list list"
  attention_mask :: "bool list list"
  images :: "'a images option"

text \<open>\<open>instance['image']\<close>: a missing key raises \<open>KeyError\<close>.\<close>

fun instance_images :: "'a example list \<Rightarrow> error + 'a tensor option list" where
  "instance_images [] = Inr []"
| "instance_images (inst # insts) =
     (case inst_image inst of
        NoKey \<Rightarrow> Inl KeyError
      | Present x \<Rightarrow>
          (case instance_images insts of Inl err \<Rightarrow> Inl err | Inr xs \<Rightarrow> Inr (x # xs)))"

text \<open>
  \<open>all(x is not None and x.shape == images[0].shape for x in images)\<close>;
  \<open>images[0].shape\<close> is only read once \<open>images[0]\<close> is known not to be \<open>None\<close>.
\<close>

definition same_shapes :: "'a tensor option list \<Rightarrow> bool" where
  "same_shapes imgs =
     list_all (\<lambda>x. case x of None \<Rightarrow> False
                  | Some t \<Rightarrow> (case hd imgs of None \<Rightarrow> False | Some t0 \<Rightarrow> tshape t = tshape t0)) imgs"

text \<open>
  The two \<open>torch.cat\<close> steps under \<open>if input_ids.shape[-1] < max_length\<close>.
  \<open>torch.ones(size=(n, offset), dtype=...) * v\<close> is an int64 tensor: the size
  must be a non-negative int64 value and \<open>v\<close> an int64 value.  The offset of
  \<open>labels\<close> is computed from \<open>labels\<close>.
\<close>

definition pad_tube :: "int \<Rightarrow> int \<Rightarrow> error + int list" where
  "pad_tube offset v =
     (if offset < 0 \<or> \<not> int64 offset \<or> \<not> int64 v then Inl RuntimeError
      else Inr (replicate (nat offset) v))"

definition pad_to_max_length ::
  "int \<Rightarrow> int \<Rightarrow> int list list \<Rightarrow> int list list \<Rightarrow> error + int list list \<times> int list list" where
  "pad_to_max_length max_length pad_id ids labs =
     (if int (shape_last ids) < max_length then
        (case pad_tube (max_length - int (shape_last ids)) pad_id of
           Inl err \<Rightarrow> Inl err
         | Inr tube \<Rightarrow>
             (case pad_tube (max_length - int (shape_last labs)) IGNORE_INDEX of
                Inl err \<Rightarrow> Inl err
              | Inr tube' \<Rightarrow> Inr (map (\<lambda>r. r @ tube) ids, map (\<lambda>r. r @ tube') labs)))
      else Inr (ids, labs))"

text \<open>
  \<open>input_ids.ne(v)\<close>: the Python int \<open>v\<close> is compared as a scalar of the int64
  tensor, so it must be an int64 value.
\<close>

definition tensor_ne :: "int list list \<Rightarrow> int \<Rightarrow> error + bool list list" where
  "tensor_ne t v = (if \<not> int64 v then Inl RuntimeError else Inr (map (map (\<lambda>x. x \<noteq> v)) t))"

definition collate_fn :: "'a example list \<Rightarrow> tokenizer \<Rightarrow> int \<Rightarrow> error + 'a batch" where
  "collate_fn instances tokenizer max_length =
     (case pad_sequence (map inst_input_ids instances) (pad_token_id tokenizer) of
        Inl err \<Rightarrow> Inl err
      | Inr ids0 \<Rightarrow>
     (case pad_sequence (map inst_labels instances) IGNORE_INDEX of
        Inl err \<Rightarrow> Inl err
      | Inr labs0 \<Rightarrow>
     (case pad_to_max_length max_length (pad_token_id tokenizer) ids0 labs0 of
        Inl err \<Rightarrow> Inl err
      | Inr (ids1, labs1) \<Rightarrow>
          let min_max_len = min max_length (model_max_length tokenizer);
              ids2 = map (py_slice_to min_max_len) ids1;
              labs2 = map (py_slice_to min_max_len) labs1
          in (case tensor_ne ids2 (pad_token_id tokenizer) of
                Inl err \<Rightarrow> Inl err
              | Inr attn \<Rightarrow>
                  let b = \<lparr>batch_input_ids = ids2, batch_labels = labs2,
                           attention_mask = attn, images = None\<rparr>
                  in (case inst_image (hd instances) of
                        NoKey \<Rightarrow> Inr b
                      | Present x0 \<Rightarrow>
                          (case instance_images instances of
                             Inl err \<Rightarrow> Inl err
                           | Inr imgs \<Rightarrow>
                               if same_shapes imgs
                               then Inr (b\<lparr>images := Some (Stacked (torch_stack (map the imgs)))\<rparr>)
                               else Inr (b\<lparr>images := Some (Unstacked imgs)\<rparr>)))))))"

section \<open>Predicates and sample inputs used in the statements\<close>

text \<open>A string without leading or trailing whitespace.\<close>

definition stripped :: "string \<Rightarrow> bool" where
  "stripped s \<longleftrightarrow> s = [] \<or> (\<not> isspace (hd s) \<and> \<not> isspace (last s))"


text \<open>
  A store with three conversations: the prompt turns at the addresses 0, 2 and
  4, the captions at 1, 3 and 5.
\<close>

definition sample_store :: store where
  "sample_store =
     \<lparr>objs = (\<lambda>a. \<lparr>sfrom = [], svalue = []\<rparr>)
        (0 := \<lparr>sfrom = ''human'', svalue = ''<image>'' @ [CHR 0x0A] @ ''describe ''\<rparr>,
         1 := \<lparr>sfrom = ''gpt'', svalue = ''a cat''\<rparr>,
         2 := \<lparr>sfrom = ''human'', svalue = ''hello''\<rparr>,
         3 := \<lparr>sfrom = ''gpt'', svalue = ''no picture''\<rparr>,
         4 := \<lparr>sfrom = ''human'', svalue = ''<image>'' @ [CHR 0x0A] @ ''describe''\<rparr>,
         5 := \<lparr>sfrom = ''gpt'', svalue = ''a dog''\<rparr>),
      next_free = 6\<rparr>"

text \<open>A turn whose placeholder occurrences are nested in one another.\<close>

definition nested_store :: store where
  "nested_store =
     \<lparr>objs = (\<lambda>a. \<lparr>sfrom = [], svalue = []\<rparr>)
        (0 := \<lparr>sfrom = ''human'', svalue = ''<ima<ima<image>ge>ge>''\<rparr>),
      next_free = 1\<rparr>"

text \<open>A tokenizer with one id per character, and one that puts a BOS id first.\<close>

definition char_tokenizer :: tokenizer where
  "char_tokenizer =
     \<lparr>tokenize = map of_char, pad_token_id = 0, eos_token_id = 2, model_max_length = 100\<rparr>"

definition bos_tokenizer :: tokenizer where
  "bos_tokenizer =
     \<lparr>tokenize = (\<lambda>s. 1 # map of_char s), pad_token_id = 0, eos_token_id = 2,
      model_max_length = 100\<rparr>"

text \<open>An image three pixels wide and one high; pixel \<open>(x, y)\<close> has colour \<open>(x, y, 0)\<close>.\<close>

definition wide_image :: pil_image where
  "wide_image = \<lparr>mode = ''RGB'', width = 3, height = 1, pixel = (\<lambda>x y. (int x, int y, 0))\<rparr>"

text \<open>A processor with a one-pixel crop that reads the colour of pixel \<open>(0, 0)\<close>.\<close>

definition sample_processor :: "int processor" where
  "sample_processor =
     \<lparr>crop_height = 1, crop_width = 1,
      preprocess = (\<lambda>im. case pixel im 0 0 of (r, g, b) \<Rightarrow> Tensor [3, 1, 1] [r, g, b])\<rparr>"

text \<open>Three records of a JSON file; the second has no key \<open>image\<close>.\<close>

definition sample_data :: "item list" where
  "sample_data =
     [\<lparr>item_image = Some ''a.jpg'', conversations = [0, 1]\<rparr>,
      \<lparr>item_image = None, conversations = [2, 3]\<rparr>,
      \<lparr>item_image = Some ''b.jpg'', conversations = [4, 5]\<rparr>]"

text \<open>
  The dataset that \<open>__init__\<close> builds from \<open>sample_data\<close>, with square padding
  switched on.
\<close>

definition sample_dataset :: "int dataset" where
  "sample_dataset = projr (dataset_init char_tokenizer True sample_data sample_processor)"

text \<open>
  Collaborators for the sample: every path opens \<open>wide_image\<close>, resizing only
  sets the size, and the separator of the plain template is a line feed.
\<close>

definition sample_env :: env where
  "sample_env =
     \<lparr>img_open = (\<lambda>path. Inr wide_image),
      img_resize = (\<lambda>im sz. im\<lparr>width := fst sz, height := snd sz\<rparr>),
      conv_sep = [CHR 0x0A]\<rparr>"


definition ex_a :: "int example" where
  "ex_a = \<lparr>inst_input_ids = [7, 8], inst_labels = [7, 8],
           inst_image = Present (Some (Tensor [1, 1, 2] [5, 6]))\<rparr>"

definition ex_b :: "int example" where
  "ex_b = \<lparr>inst_input_ids = [7, 8, 9], inst_labels = [7, 8, 9],
           inst_image = Present (Some (Tensor [1, 1, 2] [3, 4]))\<rparr>"

definition ex_c :: "int example" where
  "ex_c = \<lparr>inst_input_ids = [7, 8, 9], inst_labels = [7, 8, 9],
           inst_image = Present (Some (Tensor [1, 2, 1] [3, 4]))\<rparr>"


section \<open>Properties of the string operations and of \<open>preprocess_multimodal\<close>\<close>

lemma str_contains_iff: "str_contains sub s \<longleftrightarrow> (\<exists>p q. s = p @ sub @ q)"
proof (induction s)
  case Nil
  then show ?case by auto
next
  case (Cons c cs)
  show ?case
  proof
    assume "str_contains sub (c # cs)"
    then consider "prefix sub (c # cs)" | "str_contains sub cs" by auto
    then show "\<exists>p q. c # cs = p @ sub @ q"
    proof cases
      case 1
      then obtain q where "c # cs = sub @ q" by (auto simp: prefix_def)
      then have "c # cs = [] @ sub @ q" by simp
      then show ?thesis by blast
    next
      case 2
      with Cons.IH obtain p q where "cs = p @ sub @ q" by blast
      then have "c # cs = (c # p) @ sub @ q" by simp
      then show ?thesis by blast
    qed
  next
    assume "\<exists>p q. c # cs = p @ sub @ q"
    then obtain p q where pq: "c # cs = p @ sub @ q" by blast
    show "str_contains sub (c # cs)"
    proof (cases p)
      case Nil
      with pq have "prefix sub (c # cs)" by (simp add: prefix_def)
      then show ?thesis by simp
    next
      case (Cons d p')
      with pq have "cs = p' @ sub @ q" by simp
      with Cons.IH have "str_contains sub cs" by blast
      then show ?thesis by simp
    qed
  qed
qed

lemma replace_absent: "\<not> str_contains old s \<Longrightarrow> old \<noteq> [] \<Longrightarrow> str_replace old new s = s"
  by (induction s) auto

lemma lstrip_stripped: "stripped s \<Longrightarrow> lstrip s = s"
  by (cases s) (auto simp: stripped_def lstrip_def)

lemma rstrip_stripped: "stripped s \<Longrightarrow> rstrip s = s"
proof (cases "s = []")
  case True then show ?thesis by (simp add: rstrip_def)
next
  case False
  assume "stripped s"
  with False have "\<not> isspace (last s)" by (simp add: stripped_def)
  with False have "\<not> isspace (hd (rev s))" by (simp add: hd_rev)
  with False have "dropWhile isspace (rev s) = rev s" by (cases "rev s") auto
  then show ?thesis by (simp add: rstrip_def)
qed

lemma strip_stripped: "stripped s \<Longrightarrow> strip s = s"
  by (simp add: strip_def lstrip_stripped rstrip_stripped)

lemma rstrip_decomp: "s = rstrip s @ rev (takeWhile isspace (rev s))"
proof -
  have "rev (takeWhile isspace (rev s) @ dropWhile isspace (rev s)) = s"
    by (simp only: takeWhile_dropWhile_id rev_rev_ident)
  then show ?thesis by (simp only: rev_append rstrip_def)
qed

lemma rstrip_hd: "rstrip s \<noteq> [] \<Longrightarrow> hd (rstrip s) = hd s"
proof -
  assume ne: "rstrip s \<noteq> []"
  have "hd s = hd (rstrip s @ rev (takeWhile isspace (rev s)))"
    using rstrip_decomp [of s] by simp
  with ne show ?thesis by simp
qed

lemma rstrip_last: "rstrip s \<noteq> [] \<Longrightarrow> \<not> isspace (last (rstrip s))"
proof -
  assume ne: "rstrip s \<noteq> []"
  then have d: "dropWhile isspace (rev s) \<noteq> []" by (simp add: rstrip_def)
  have "last (rstrip s) = hd (dropWhile isspace (rev s))"
    using d by (simp add: rstrip_def last_rev)
  with d show ?thesis by (simp add: hd_dropWhile)
qed

lemma stripped_strip: "stripped (strip s)"
proof (cases "strip s = []")
  case True
  then show ?thesis by (simp add: stripped_def)
next
  case False
  then have ne: "rstrip (lstrip s) \<noteq> []" by (simp add: strip_def)
  then have l: "lstrip s \<noteq> []" by (auto simp: rstrip_def)
  have "hd (strip s) = hd (lstrip s)" using ne by (simp add: strip_def rstrip_hd)
  moreover have "\<not> isspace (hd (lstrip s))" using l by (simp add: lstrip_def hd_dropWhile)
  moreover have "\<not> isspace (last (strip s))" using ne by (simp add: strip_def rstrip_last)
  ultimately show ?thesis by (simp add: stripped_def)
qed

lemma strip_space_Cons: "isspace c \<Longrightarrow> strip (c # s) = strip s"
  by (simp add: strip_def lstrip_def)

lemma replace_token_nl:
  "str_replace DEFAULT_IMAGE_TOKEN [] (DEFAULT_IMAGE_TOKEN @ [CHR 0x0A] @ w) = CHR 0x0A # str_replace DEFAULT_IMAGE_TOKEN [] w"
  by (simp add: DEFAULT_IMAGE_TOKEN_def)

lemma strip_token_nl: "strip (DEFAULT_IMAGE_TOKEN @ [CHR 0x0A]) = DEFAULT_IMAGE_TOKEN"
  by (simp add: DEFAULT_IMAGE_TOKEN_def strip_def lstrip_def rstrip_def isspace_def)

lemma replace_token: "str_replace DEFAULT_IMAGE_TOKEN [] DEFAULT_IMAGE_TOKEN = []"
  by (simp add: DEFAULT_IMAGE_TOKEN_def)

lemma stripped_token_nl: "stripped w \<Longrightarrow> w \<noteq> [] \<Longrightarrow> stripped (DEFAULT_IMAGE_TOKEN @ [CHR 0x0A] @ w)"
  by (simp add: stripped_def DEFAULT_IMAGE_TOKEN_def isspace_def)

lemma isspace_nl: "isspace (CHR 0x0A)"
  by (simp add: isspace_def)

text \<open>Remove, reinsert, strip, remove, strip: the reinserted marker goes again.\<close>

lemma reinsert_net:
  assumes "stripped w"
  shows "strip (str_replace DEFAULT_IMAGE_TOKEN [] (strip (DEFAULT_IMAGE_TOKEN @ [CHR 0x0A] @ w)))
         = strip (str_replace DEFAULT_IMAGE_TOKEN [] w)"
proof (cases "w = []")
  case True
  then show ?thesis by (simp add: strip_token_nl replace_token del: append.simps)
next
  case False
  with assms have "strip (DEFAULT_IMAGE_TOKEN @ [CHR 0x0A] @ w) = DEFAULT_IMAGE_TOKEN @ [CHR 0x0A] @ w"
    by (intro strip_stripped stripped_token_nl)
  then show ?thesis by (simp only: replace_token_nl strip_space_Cons [OF isspace_nl])
qed

lemma preprocess_sentence_value:
  "svalue (preprocess_sentence s) =
     (if str_contains DEFAULT_IMAGE_TOKEN (svalue s)
      then strip (str_replace DEFAULT_IMAGE_TOKEN [] (strip (str_replace DEFAULT_IMAGE_TOKEN [] (svalue s))))
      else svalue s)"
  by (simp add: preprocess_sentence_def Let_def reinsert_net [OF stripped_strip] del: append.simps)

lemma preprocess_sentence_from: "sfrom (preprocess_sentence s) = sfrom s"
  by (simp add: preprocess_sentence_def Let_def)

lemma DEFAULT_IMAGE_TOKEN_ne: "DEFAULT_IMAGE_TOKEN \<noteq> []"
  by (simp add: DEFAULT_IMAGE_TOKEN_def)

lemma preprocess_source_other:
  "a \<notin> set source \<Longrightarrow> objs (preprocess_source st source) a = objs st a"
  by (induction source arbitrary: st) auto

lemma preprocess_source_next_free: "next_free (preprocess_source st source) = next_free st"
  by (induction source arbitrary: st) auto

lemma preprocess_multimodal_other:
  "a \<notin> set (concat sources) \<Longrightarrow> objs (preprocess_multimodal st sources) a = objs st a"
  by (induction sources arbitrary: st) (auto simp: preprocess_source_other)

lemma preprocess_multimodal_next_free: "next_free (preprocess_multimodal st sources) = next_free st"
  by (induction sources arbitrary: st) (auto simp: preprocess_source_next_free)

lemma preprocess_sentence_absent:
  "\<not> str_contains DEFAULT_IMAGE_TOKEN (svalue s) \<Longrightarrow> preprocess_sentence s = s"
  by (simp add: preprocess_sentence_def)

lemma preprocess_sentence_stripped:
  "str_contains DEFAULT_IMAGE_TOKEN (svalue s) \<Longrightarrow> stripped (svalue (preprocess_sentence s))"
  by (simp add: preprocess_sentence_value stripped_strip)

lemma preprocess_sentence_keeps_stripped:
  "stripped (svalue s) \<Longrightarrow> stripped (svalue (preprocess_sentence s))"
  by (simp add: preprocess_sentence_value stripped_strip)

lemma preprocess_source_Cons_other:
  "x \<noteq> a \<Longrightarrow> objs (st\<lparr>objs := (objs st)(x := y)\<rparr>) a = objs st a"
  by simp

lemma preprocess_source_absent:
  "\<not> str_contains DEFAULT_IMAGE_TOKEN (svalue (objs st a)) \<Longrightarrow>
   objs (preprocess_source st source) a = objs st a"
proof (induction source arbitrary: st)
  case Nil
  then show ?case by simp
next
  case (Cons x source)
  let ?st1 = "st\<lparr>objs := (objs st)(x := preprocess_sentence (objs st x))\<rparr>"
  have same: "objs ?st1 a = objs st a"
    using Cons.prems by (cases "x = a") (simp_all add: preprocess_sentence_absent)
  with Cons.prems have "\<not> str_contains DEFAULT_IMAGE_TOKEN (svalue (objs ?st1 a))" by simp
  then have "objs (preprocess_source ?st1 source) a = objs ?st1 a" by (rule Cons.IH)
  with same show ?case by simp
qed

lemma preprocess_multimodal_absent:
  "\<not> str_contains DEFAULT_IMAGE_TOKEN (svalue (objs st a)) \<Longrightarrow>
   objs (preprocess_multimodal st sources) a = objs st a"
proof (induction sources arbitrary: st)
  case Nil
  then show ?case by simp
next
  case (Cons source sources)
  have same: "objs (preprocess_source st source) a = objs st a"
    using Cons.prems by (rule preprocess_source_absent)
  with Cons.prems have "\<not> str_contains DEFAULT_IMAGE_TOKEN (svalue (objs (preprocess_source st source) a))"
    by simp
  then have "objs (preprocess_multimodal (preprocess_source st source) sources) a
             = objs (preprocess_source st source) a"
    by (rule Cons.IH)
  with same show ?case by simp
qed

lemma preprocess_source_keeps_stripped:
  "stripped (svalue (objs st a)) \<Longrightarrow> stripped (svalue (objs (preprocess_source st source) a))"
proof (induction source arbitrary: st)
  case Nil
  then show ?case by simp
next
  case (Cons x source)
  let ?st1 = "st\<lparr>objs := (objs st)(x := preprocess_sentence (objs st x))\<rparr>"
  have "stripped (svalue (objs ?st1 a))"
    using Cons.prems by (cases "x = a") (simp_all add: preprocess_sentence_keeps_stripped)
  then have "stripped (svalue (objs (preprocess_source ?st1 source) a))" by (rule Cons.IH)
  then show ?case by simp
qed

lemma preprocess_multimodal_keeps_stripped:
  "stripped (svalue (objs st a)) \<Longrightarrow> stripped (svalue (objs (preprocess_multimodal st sources) a))"
proof (induction sources arbitrary: st)
  case Nil
  then show ?case by simp
next
  case (Cons source sources)
  from Cons.prems have "stripped (svalue (objs (preprocess_source st source) a))"
    by (rule preprocess_source_keeps_stripped)
  then have "stripped (svalue (objs (preprocess_multimodal (preprocess_source st source) sources) a))"
    by (rule Cons.IH)
  then show ?case by simp
qed

lemma preprocess_source_stripped:
  "a \<in> set source \<Longrightarrow> str_contains DEFAULT_IMAGE_TOKEN (svalue (objs st a)) \<Longrightarrow>
   stripped (svalue (objs (preprocess_source st source) a))"
proof (induction source arbitrary: st)
  case Nil
  then show ?case by simp
next
  case (Cons x source)
  let ?st1 = "st\<lparr>objs := (objs st)(x := preprocess_sentence (objs st x))\<rparr>"
  show ?case
  proof (cases "x = a")
    case True
    with Cons.prems(2) have "stripped (svalue (objs ?st1 a))"
      by (simp add: preprocess_sentence_stripped)
    then have "stripped (svalue (objs (preprocess_source ?st1 source) a))"
      by (rule preprocess_source_keeps_stripped)
    then show ?thesis by simp
  next
    case False
    with Cons.prems have m: "a \<in> set source"
      and c: "str_contains DEFAULT_IMAGE_TOKEN (svalue (objs ?st1 a))" by simp_all
    from m c have "stripped (svalue (objs (preprocess_source ?st1 source) a))" by (rule Cons.IH)
    then show ?thesis by simp
  qed
qed

lemma preprocess_multimodal_stripped:
  "a \<in> set (concat sources) \<Longrightarrow> str_contains DEFAULT_IMAGE_TOKEN (svalue (objs st a)) \<Longrightarrow>
   stripped (svalue (objs (preprocess_multimodal st sources) a))"
proof (induction sources arbitrary: st)
  case Nil
  then show ?case by simp
next
  case (Cons source sources)
  let ?st1 = "preprocess_source st source"
  show ?case
  proof (cases "a \<in> set source")
    case True
    then have "stripped (svalue (objs ?st1 a))"
      using Cons.prems(2) by (rule preprocess_source_stripped)
    then have "stripped (svalue (objs (preprocess_multimodal ?st1 sources) a))"
      by (rule preprocess_multimodal_keeps_stripped)
    then show ?thesis by simp
  next
    case False
    then have same: "objs ?st1 a = objs st a" by (rule preprocess_source_other)
    from False Cons.prems(1) have m: "a \<in> set (concat sources)" by simp
    from same Cons.prems(2) have c: "str_contains DEFAULT_IMAGE_TOKEN (svalue (objs ?st1 a))" by simp
    from m c have "stripped (svalue (objs (preprocess_multimodal ?st1 sources) a))" by (rule Cons.IH)
    then show ?thesis by simp
  qed
qed

lemma preprocess_source_once:
  "count_list source a = 1 \<Longrightarrow>
   objs (preprocess_source st source) a = preprocess_sentence (objs st a)"
proof (induction source arbitrary: st)
  case Nil
  then show ?case by simp
next
  case (Cons x source)
  let ?st1 = "st\<lparr>objs := (objs st)(x := preprocess_sentence (objs st x))\<rparr>"
  show ?case
  proof (cases "x = a")
    case True
    with Cons.prems have "count_list source a = 0" by simp
    then have "a \<notin> set source" by (simp add: count_list_0_iff)
    then have "objs (preprocess_source ?st1 source) a = objs ?st1 a" by (rule preprocess_source_other)
    with True show ?thesis by simp
  next
    case False
    with Cons.prems have "count_list source a = 1" by simp
    then have "objs (preprocess_source ?st1 source) a = preprocess_sentence (objs ?st1 a)"
      by (rule Cons.IH)
    with False show ?thesis by simp
  qed
qed

lemma preprocess_multimodal_once:
  "count_list (concat sources) a = 1 \<Longrightarrow>
   objs (preprocess_multimodal st sources) a = preprocess_sentence (objs st a)"
proof (induction sources arbitrary: st)
  case Nil
  then show ?case by simp
next
  case (Cons source sources)
  let ?st1 = "preprocess_source st source"
  from Cons.prems have sum: "count_list source a + count_list (concat sources) a = 1"
    by (simp add: count_list_append)
  show ?case
  proof (cases "count_list source a = 0")
    case True
    then have "a \<notin> set source" by (simp add: count_list_0_iff)
    then have same: "objs ?st1 a = objs st a" by (rule preprocess_source_other)
    from True sum have "count_list (concat sources) a = 1" by simp
    then have "objs (preprocess_multimodal ?st1 sources) a = preprocess_sentence (objs ?st1 a)"
      by (rule Cons.IH)
    with same show ?thesis by simp
  next
    case False
    with sum have one: "count_list source a = 1" and "count_list (concat sources) a = 0" by simp_all
    then have "a \<notin> set (concat sources)" by (simp add: count_list_0_iff)
    then have "objs (preprocess_multimodal ?st1 sources) a = objs ?st1 a"
      by (rule preprocess_multimodal_other)
    also have "\<dots> = preprocess_sentence (objs st a)" using one by (rule preprocess_source_once)
    finally show ?thesis by simp
  qed
qed

text \<open>
  What \<open>preprocess_multimodal\<close> does to the turn at an address \<open>a\<close>.  A turn
  without the placeholder stays as it is.  A listed turn with the placeholder
  ends without leading or trailing whitespace.  For a turn listed once, the
  new value is \<open>strip(replace(strip(replace(value))))\<close>, with \<open>replace\<close> the
  one-pass removal of the placeholder; when one removal pass followed by
  \<open>strip\<close> leaves no placeholder, that string is the new value and the
  placeholder is gone.
\<close>

lemma preprocess_multimodal_effect:
  assumes "v = svalue (objs st a)" and "v' = svalue (objs (preprocess_multimodal st sources) a)"
  shows "(\<not> str_contains DEFAULT_IMAGE_TOKEN v \<longrightarrow>
            objs (preprocess_multimodal st sources) a = objs st a)
       \<and> (a \<in> set (concat sources) \<and> str_contains DEFAULT_IMAGE_TOKEN v \<longrightarrow> stripped v')
       \<and> (count_list (concat sources) a = 1 \<and> str_contains DEFAULT_IMAGE_TOKEN v \<longrightarrow>
            v' = strip (str_replace DEFAULT_IMAGE_TOKEN [] (strip (str_replace DEFAULT_IMAGE_TOKEN [] v)))
          \<and> (\<not> str_contains DEFAULT_IMAGE_TOKEN (strip (str_replace DEFAULT_IMAGE_TOKEN [] v)) \<longrightarrow>
               v' = strip (str_replace DEFAULT_IMAGE_TOKEN [] v) \<and> \<not> str_contains DEFAULT_IMAGE_TOKEN v'))"
proof (intro conjI impI)
  assume "\<not> str_contains DEFAULT_IMAGE_TOKEN v"
  then show "objs (preprocess_multimodal st sources) a = objs st a"
    unfolding assms(1) by (rule preprocess_multimodal_absent)
next
  assume "a \<in> set (concat sources) \<and> str_contains DEFAULT_IMAGE_TOKEN v"
  then show "stripped v'"
    unfolding assms by (simp add: preprocess_multimodal_stripped)
next
  assume h: "count_list (concat sources) a = 1 \<and> str_contains DEFAULT_IMAGE_TOKEN v"
  then have m: "objs (preprocess_multimodal st sources) a = preprocess_sentence (objs st a)"
    by (simp add: preprocess_multimodal_once)
  from h show e: "v' = strip (str_replace DEFAULT_IMAGE_TOKEN [] (strip (str_replace DEFAULT_IMAGE_TOKEN [] v)))"
    unfolding assms m by (simp add: preprocess_sentence_value)
  assume n: "\<not> str_contains DEFAULT_IMAGE_TOKEN (strip (str_replace DEFAULT_IMAGE_TOKEN [] v))"
  then have "str_replace DEFAULT_IMAGE_TOKEN [] (strip (str_replace DEFAULT_IMAGE_TOKEN [] v))
           = strip (str_replace DEFAULT_IMAGE_TOKEN [] v)"
    by (simp add: replace_absent DEFAULT_IMAGE_TOKEN_ne)
  with e show w: "v' = strip (str_replace DEFAULT_IMAGE_TOKEN [] v)"
    by (simp add: strip_stripped stripped_strip)
  from n w show "\<not> str_contains DEFAULT_IMAGE_TOKEN v'" by simp
qed

subsection \<open>Claim C6\<close>

text \<open>
  C6 asks that a value which contains \<open><image>\<close> contains none after
  \<open>preprocess_multimodal\<close>.  The code removes the placeholder by two passes of
  \<open>replace\<close>, and a pass does not look again at what a removal joins.  At the
  value \<open><ima<ima<image>ge>ge>\<close> each pass uncovers a further occurrence, and
  the value the code leaves is \<open><image>\<close>: the placeholder is still there.
\<close>

theorem preprocess_multimodal_nested_placeholder:
  "str_contains DEFAULT_IMAGE_TOKEN (svalue (objs nested_store 0))
   \<and> svalue (objs (preprocess_multimodal nested_store [[0]]) 0) = ''<image>''
   \<and> str_contains DEFAULT_IMAGE_TOKEN (svalue (objs (preprocess_multimodal nested_store [[0]]) 0))"
  by (simp add: nested_store_def preprocess_sentence_def DEFAULT_IMAGE_TOKEN_def
       strip_def lstrip_def rstrip_def isspace_def)

section \<open>Properties of \<open>preprocess_plain\<close>\<close>

lemma plain_conversations_fst_Cons:
  "length s = 2 \<Longrightarrow>
   fst (plain_conversations sep st (s # sources)) =
   (case fst (plain_conversations sep (blank_first st s) sources) of
      Inl e \<Rightarrow> Inl e
    | Inr convs \<Rightarrow>
        Inr ((svalue (objs (blank_first st s) (s ! 0)) @ svalue (objs (blank_first st s) (s ! 1)) @ sep) # convs))"
  by (auto simp: Let_def split: prod.splits sum.splits)

lemma plain_conversations_snd_Cons:
  "length s = 2 \<Longrightarrow>
   snd (plain_conversations sep st (s # sources)) = snd (plain_conversations sep (blank_first st s) sources)"
  by (auto simp: Let_def split: prod.splits sum.splits)

lemma plain_conversations_bad_Cons:
  "length s \<noteq> 2 \<Longrightarrow> plain_conversations sep st (s # sources) = (Inl AssertionError, st)"
  by simp

lemma plain_conversations_assert:
  "\<exists>source \<in> set sources. length source \<noteq> 2 \<Longrightarrow>
   fst (plain_conversations sep st sources) = Inl AssertionError"
proof (induction sources arbitrary: st)
  case Nil
  then show ?case by simp
next
  case (Cons source sources)
  show ?case
  proof (cases "length source = 2")
    case False
    then show ?thesis by simp
  next
    case True
    with Cons.prems have "\<exists>s \<in> set sources. length s \<noteq> 2" by auto
    then have "fst (plain_conversations sep (blank_first st source) sources) = Inl AssertionError"
      by (rule Cons.IH)
    then show ?thesis using True by (simp only: plain_conversations_fst_Cons) simp
  qed
qed

lemma plain_conversations_ok:
  "\<forall>source \<in> set sources. length source = 2 \<Longrightarrow>
   \<exists>convs. fst (plain_conversations sep st sources) = Inr convs \<and> length convs = length sources"
proof (induction sources arbitrary: st)
  case Nil
  then show ?case by simp
next
  case (Cons source sources)
  from Cons.prems have len: "length source = 2" and "\<forall>s \<in> set sources. length s = 2" by simp_all
  then obtain convs where "fst (plain_conversations sep (blank_first st source) sources) = Inr convs"
    "length convs = length sources"
    using Cons.IH by blast
  then show ?case using len by (simp only: plain_conversations_fst_Cons) simp
qed

lemma plain_conversations_next_free:
  "next_free (snd (plain_conversations sep st sources)) = next_free st"
proof (induction sources arbitrary: st)
  case Nil
  then show ?case by simp
next
  case (Cons s sources)
  show ?case
  proof (cases "length s = 2")
    case False
    then show ?thesis by simp
  next
    case True
    then show ?thesis
      by (simp only: plain_conversations_snd_Cons Cons.IH) (simp add: blank_first_def)
  qed
qed

lemma plain_conversations_other:
  "a \<notin> set (concat sources) \<Longrightarrow> objs (snd (plain_conversations sep st sources)) a = objs st a"
proof (induction sources arbitrary: st)
  case Nil
  then show ?case by simp
next
  case (Cons source sources)
  show ?case
  proof (cases "length source = 2")
    case False
    then show ?thesis by simp
  next
    case True
    then have "source ! 0 \<in> set source" by simp
    with Cons.prems have ne: "source ! 0 \<noteq> a" by auto
    from Cons.prems have "a \<notin> set (concat sources)" by simp
    then have "objs (snd (plain_conversations sep (blank_first st source) sources)) a
               = objs (blank_first st source) a"
      by (rule Cons.IH)
    also have "\<dots> = objs st a" using ne by (simp add: blank_first_def)
    finally show ?thesis using True by (simp only: plain_conversations_snd_Cons)
  qed
qed

lemma plain_conversations_blank_stays:
  "svalue (objs st a) = [] \<Longrightarrow> svalue (objs (snd (plain_conversations sep st sources)) a) = []"
proof (induction sources arbitrary: st)
  case Nil
  then show ?case by simp
next
  case (Cons source sources)
  show ?case
  proof (cases "length source = 2")
    case False
    with Cons.prems show ?thesis by simp
  next
    case True
    from Cons.prems have "svalue (objs (blank_first st source) a) = []"
      by (simp add: blank_first_def)
    then have "svalue (objs (snd (plain_conversations sep (blank_first st source) sources)) a) = []"
      by (rule Cons.IH)
    with True show ?thesis by (simp only: plain_conversations_snd_Cons)
  qed
qed

lemma plain_conversations_first_blank:
  "fst (plain_conversations sep st sources) = Inr convs \<Longrightarrow> source \<in> set sources \<Longrightarrow>
   svalue (objs (snd (plain_conversations sep st sources)) (source ! 0)) = []"
proof (induction sources arbitrary: st convs)
  case Nil
  then show ?case by simp
next
  case (Cons s sources)
  from Cons.prems(1) have len: "length s = 2" by (auto split: if_splits)
  from Cons.prems(1) obtain convs' where
    rest: "fst (plain_conversations sep (blank_first st s) sources) = Inr convs'"
    using plain_conversations_fst_Cons [OF len, of sep st sources]
    by (cases "fst (plain_conversations sep (blank_first st s) sources)") auto
  show ?case
  proof (cases "source = s")
    case True
    have "svalue (objs (blank_first st s) (s ! 0)) = []" by (simp add: blank_first_def)
    then have "svalue (objs (snd (plain_conversations sep (blank_first st s) sources)) (s ! 0)) = []"
      by (rule plain_conversations_blank_stays)
    with True len show ?thesis by (simp only: plain_conversations_snd_Cons)
  next
    case False
    with Cons.prems(2) have "source \<in> set sources" by simp
    with rest have "svalue (objs (snd (plain_conversations sep (blank_first st s) sources)) (source ! 0)) = []"
      by (rule Cons.IH)
    with len show ?thesis by (simp only: plain_conversations_snd_Cons)
  qed
qed

lemma mask_targets_result: "mask_targets tok st targets sources = Inr t \<Longrightarrow> t = targets"
  by (induction tok st targets sources arbitrary: t rule: mask_targets.induct)
     (auto split: if_splits sum.splits)

lemma mask_targets_error: "mask_targets tok st targets sources = Inl e \<Longrightarrow> e = TypeError"
  by (induction tok st targets sources rule: mask_targets.induct)
     (auto split: if_splits sum.splits)

lemma mask_targets_zero:
  "\<forall>source \<in> set sources. tokenized_len tok st source = 0 \<Longrightarrow>
   mask_targets tok st targets sources = Inr targets"
  by (induction tok st targets sources rule: mask_targets.induct) auto

lemma torch_tensor_result: "torch_tensor rows = Inr t \<Longrightarrow> t = rows"
  by (auto simp: torch_tensor_def split: if_splits)

lemma torch_tensor_error: "torch_tensor rows = Inl e \<Longrightarrow> e = ValueError \<or> e = RuntimeError"
  by (auto simp: torch_tensor_def split: if_splits)

lemma torch_tensor_single: "list_all int64 row \<Longrightarrow> torch_tensor [row] = Inr [row]"
  by (simp add: torch_tensor_def)

lemma plain_conversations_error:
  "fst (plain_conversations sep st sources) = Inl e \<Longrightarrow> e = AssertionError"
proof (cases "\<forall>source \<in> set sources. length source = 2")
  case True
  assume "fst (plain_conversations sep st sources) = Inl e"
  with plain_conversations_ok [OF True, of sep st] show ?thesis by auto
next
  case False
  assume "fst (plain_conversations sep st sources) = Inl e"
  with plain_conversations_assert [of sources sep st] False show ?thesis by auto
qed

lemma preprocess_plain_store:
  "snd (preprocess_plain sep tok st sources) = snd (plain_conversations sep st sources)"
  by (auto simp: preprocess_plain_def Let_def split: prod.splits sum.splits)

lemma preprocess_plain_Inr:
  assumes "fst (preprocess_plain sep tok st sources) = Inr dd"
  shows "\<exists>convs. fst (plain_conversations sep st sources) = Inr convs
           \<and> input_ids dd = map (\<lambda>prompt. tokenize tok prompt @ [eos_token_id tok]) convs
           \<and> labels dd = input_ids dd"
proof (cases "plain_conversations sep st sources")
  case (Pair r st1)
  show ?thesis
  proof (cases r)
    case (Inl e)
    with Pair assms show ?thesis by (simp add: preprocess_plain_def)
  next
    case (Inr convs)
    let ?ids = "map (\<lambda>prompt. tokenize tok prompt @ [eos_token_id tok]) convs"
    from assms Pair Inr obtain targets' t1 t2 where
      m: "mask_targets tok st1 ?ids sources = Inr targets'" and
      t1: "torch_tensor ?ids = Inr t1" and t2: "torch_tensor targets' = Inr t2" and
      dd: "dd = \<lparr>input_ids = t1, labels = t2\<rparr>"
      by (auto simp: preprocess_plain_def Let_def split: sum.splits)
    from m have "targets' = ?ids" by (rule mask_targets_result)
    moreover from t1 have "t1 = ?ids" by (rule torch_tensor_result)
    moreover from t2 have "t2 = targets'" by (rule torch_tensor_result)
    ultimately show ?thesis using Pair Inr dd by simp
  qed
qed

lemma preprocess_plain_assert:
  assumes "\<exists>source \<in> set sources. length source \<noteq> 2"
  shows "fst (preprocess_plain sep tok st sources) = Inl AssertionError"
proof -
  from assms have "fst (plain_conversations sep st sources) = Inl AssertionError"
    by (rule plain_conversations_assert)
  then show ?thesis
    by (cases "plain_conversations sep st sources") (simp add: preprocess_plain_def)
qed

lemma preprocess_plain_no_assert:
  assumes "\<forall>source \<in> set sources. length source = 2"
  shows "fst (preprocess_plain sep tok st sources) \<noteq> Inl AssertionError"
proof
  assume a: "fst (preprocess_plain sep tok st sources) = Inl AssertionError"
  from assms obtain convs where c: "fst (plain_conversations sep st sources) = Inr convs"
    using plain_conversations_ok by blast
  then obtain st1 where p: "plain_conversations sep st sources = (Inr convs, st1)"
    by (cases "plain_conversations sep st sources") auto
  from a p show False
    by (auto simp: preprocess_plain_def Let_def split: sum.splits
             dest: mask_targets_error torch_tensor_error)
qed

lemma plain_conversations_Inr:
  assumes "fst (plain_conversations sep st sources) = Inr convs"
  shows "length convs = length sources \<and> (\<forall>source \<in> set sources. length source = 2)"
proof -
  have two: "\<forall>source \<in> set sources. length source = 2"
  proof (rule ccontr)
    assume "\<not> (\<forall>source \<in> set sources. length source = 2)"
    then have "\<exists>source \<in> set sources. length source \<noteq> 2" by simp
    then have "fst (plain_conversations sep st sources) = Inl AssertionError"
      by (rule plain_conversations_assert)
    with assms show False by simp
  qed
  with plain_conversations_ok [OF two, of sep st] assms show ?thesis by auto
qed

lemma of_char_nonneg: "(0::int) \<le> of_char c"
proof -
  have "(of_char c :: int) = int (of_char c)" by (rule of_nat_of_char [symmetric])
  then show ?thesis by (simp only: of_nat_0_le_iff)
qed

lemma of_char_int64: "list_all int64 (map of_char s)"
proof -
  have "int64 (of_char c)" for c
  proof -
    have m: "(of_char c :: int) mod 256 = of_char c" by simp
    have "(0::int) \<le> of_char c mod 256" by (rule pos_mod_sign) simp
    moreover have "(of_char c :: int) mod 256 < 256" by (rule pos_mod_bound) simp
    ultimately have "(0::int) \<le> of_char c" and "(of_char c :: int) < 256" by (simp_all only: m)
    then show ?thesis by (simp add: int64_def)
  qed
  then show ?thesis by (simp add: list_all_iff)
qed

lemma of_char_not_ignore: "IGNORE_INDEX \<notin> set (map of_char s)"
proof
  assume "IGNORE_INDEX \<in> set (map of_char s)"
  then obtain c where "IGNORE_INDEX = (of_char c :: int)" by auto
  with of_char_nonneg [of c] show False by (simp add: IGNORE_INDEX_def)
qed

subsection \<open>Claim C7\<close>

text \<open>
  C7.  \<open>preprocess_plain\<close> raises \<open>AssertionError\<close> as soon as one conversation
  of \<open>sources\<close> does not have exactly two turns; when every conversation has
  exactly two turns, whatever \<open>preprocess_plain\<close> does is not that error.
\<close>

theorem preprocess_plain_asserts_two_turns:
  "((\<exists>source \<in> set sources. length source \<noteq> 2) \<longrightarrow>
      fst (preprocess_plain sep tok st sources) = Inl AssertionError)
   \<and> ((\<forall>source \<in> set sources. length source = 2) \<longrightarrow>
      fst (preprocess_plain sep tok st sources) \<noteq> Inl AssertionError)"
  using preprocess_plain_assert preprocess_plain_no_assert by blast

theorem preprocess_plain_asserts_two_turns_witness:
  "(\<exists>source \<in> set [[0, 1], [0::addr]]. length source \<noteq> 2)
   \<and> fst (preprocess_plain [CHR 0x0A] char_tokenizer sample_store [[0, 1], [0]]) = Inl AssertionError
   \<and> length [0, 1::addr] = 2
   \<and> fst (preprocess_plain [CHR 0x0A] char_tokenizer sample_store [[0, 1]]) \<noteq> Inl AssertionError"
  using preprocess_plain_asserts_two_turns [of "[[0, 1], [0]]" "[CHR 0x0A]" char_tokenizer sample_store]
        preprocess_plain_asserts_two_turns [of "[[0, 1]]" "[CHR 0x0A]" char_tokenizer sample_store]
  by simp

subsection \<open>Claim C3\<close>

text \<open>
  C3.  Whenever \<open>preprocess_plain\<close> returns, \<open>input_ids\<close> and \<open>labels\<close>
  have one row per conversation, row \<open>i\<close> of \<open>labels\<close> is as long as row \<open>i\<close>
  of \<open>input_ids\<close>, and row \<open>i\<close> of \<open>input_ids\<close> is the tokenized concatenation of
  conversation \<open>i\<close> followed by the tokenizer's end-of-sequence id, which is
  its last element.
\<close>

theorem preprocess_plain_equal_lengths:
  assumes "fst (preprocess_plain sep tok st sources) = Inr dd"
  shows "\<exists>convs. fst (plain_conversations sep st sources) = Inr convs
           \<and> input_ids dd = map (\<lambda>prompt. tokenize tok prompt @ [eos_token_id tok]) convs
           \<and> length (input_ids dd) = length sources
           \<and> length (labels dd) = length sources
           \<and> (\<forall>i < length sources.
                 length (labels dd ! i) = length (input_ids dd ! i)
               \<and> input_ids dd ! i = tokenize tok (convs ! i) @ [eos_token_id tok]
               \<and> last (input_ids dd ! i) = eos_token_id tok)"
proof -
  from preprocess_plain_Inr [OF assms] obtain convs where
    c: "fst (plain_conversations sep st sources) = Inr convs" and
    i: "input_ids dd = map (\<lambda>prompt. tokenize tok prompt @ [eos_token_id tok]) convs" and
    l: "labels dd = input_ids dd"
    by blast
  from c have n: "length convs = length sources" by (simp add: plain_conversations_Inr)
  from i l n have "\<forall>i < length sources.
                 length (labels dd ! i) = length (input_ids dd ! i)
               \<and> input_ids dd ! i = tokenize tok (convs ! i) @ [eos_token_id tok]
               \<and> last (input_ids dd ! i) = eos_token_id tok"
    by simp
  with c i l n show ?thesis by simp
qed

text \<open>The sample conversation under the character tokenizer: the call returns.\<close>

theorem preprocess_plain_equal_lengths_witness:
  "fst (preprocess_plain [CHR 0x0A] char_tokenizer sample_store [[0, 1]])
     = Inr \<lparr>input_ids = [[97, 32, 99, 97, 116, 10, 2]], labels = [[97, 32, 99, 97, 116, 10, 2]]\<rparr>
   \<and> fst (plain_conversations [CHR 0x0A] sample_store [[0, 1]]) = Inr [''a cat'' @ [CHR 0x0A]]
   \<and> length [[97, 32, 99, 97, 116, 10, 2 :: int]] = length [[0, 1 :: addr]]
   \<and> length ([[97, 32, 99, 97, 116, 10, 2 :: int]] ! 0) = 7
   \<and> last ([[97, 32, 99, 97, 116, 10, 2 :: int]] ! 0) = eos_token_id char_tokenizer"
  using preprocess_plain_equal_lengths [of "[CHR 0x0A]" char_tokenizer sample_store "[[0, 1]]"
      "\<lparr>input_ids = [[97, 32, 99, 97, 116, 10, 2]], labels = [[97, 32, 99, 97, 116, 10, 2]]\<rparr>"]
  by (simp add: preprocess_plain_def char_tokenizer_def sample_store_def blank_first_def
        tokenized_len_def torch_tensor_def int64_def)

subsection \<open>Claim C2\<close>

text \<open>
  C2, as the code has it.  Let every conversation have two turns and let the
  tokenizer encode the empty string as the empty sequence.  Then the length of
  the prefix to mask, \<open>tokenized_len\<close>, is 0 for every conversation; whenever
  \<open>preprocess_plain\<close> returns, \<open>labels\<close> equals \<open>input_ids\<close>, and no label
  is \<open>IGNORE_INDEX\<close> provided neither the end-of-sequence id nor an id of the
  tokenizer is \<open>IGNORE_INDEX\<close>; and for a single conversation
  \<open>preprocess_plain\<close> does return when the end-of-sequence id and the ids of
  the tokenizer are int64 values.
\<close>

theorem preprocess_plain_unmasked:
  assumes "\<forall>source \<in> set sources. length source = 2" and "tokenize tok [] = []"
  shows "(\<forall>source \<in> set sources.
            tokenized_len tok (snd (preprocess_plain sep tok st sources)) source = 0)
       \<and> (\<forall>dd. fst (preprocess_plain sep tok st sources) = Inr dd \<longrightarrow>
              labels dd = input_ids dd
            \<and> (eos_token_id tok \<noteq> IGNORE_INDEX \<and> (\<forall>s. IGNORE_INDEX \<notin> set (tokenize tok s)) \<longrightarrow>
                 (\<forall>row \<in> set (labels dd). IGNORE_INDEX \<notin> set row)))
       \<and> (length sources = 1 \<and> int64 (eos_token_id tok) \<and> (\<forall>s. list_all int64 (tokenize tok s)) \<longrightarrow>
             (\<exists>dd. fst (preprocess_plain sep tok st sources) = Inr dd))"
proof (intro conjI)
  from assms(1) obtain convs where
    c: "fst (plain_conversations sep st sources) = Inr convs" and n: "length convs = length sources"
    using plain_conversations_ok by blast
  let ?st1 = "snd (plain_conversations sep st sources)"
  have z: "\<forall>source \<in> set sources. tokenized_len tok ?st1 source = 0"
    using plain_conversations_first_blank [OF c] assms(2) by (simp add: tokenized_len_def)
  then show "\<forall>source \<in> set sources.
            tokenized_len tok (snd (preprocess_plain sep tok st sources)) source = 0"
    by (simp only: preprocess_plain_store)
  show "\<forall>dd. fst (preprocess_plain sep tok st sources) = Inr dd \<longrightarrow>
              labels dd = input_ids dd
            \<and> (eos_token_id tok \<noteq> IGNORE_INDEX \<and> (\<forall>s. IGNORE_INDEX \<notin> set (tokenize tok s)) \<longrightarrow>
                 (\<forall>row \<in> set (labels dd). IGNORE_INDEX \<notin> set row))"
  proof (intro allI impI)
    fix dd
    assume "fst (preprocess_plain sep tok st sources) = Inr dd"
    from preprocess_plain_Inr [OF this] obtain convs' where
      i: "input_ids dd = map (\<lambda>prompt. tokenize tok prompt @ [eos_token_id tok]) convs'" and
      l: "labels dd = input_ids dd"
      by blast
    from i l show "labels dd = input_ids dd
            \<and> (eos_token_id tok \<noteq> IGNORE_INDEX \<and> (\<forall>s. IGNORE_INDEX \<notin> set (tokenize tok s)) \<longrightarrow>
                 (\<forall>row \<in> set (labels dd). IGNORE_INDEX \<notin> set row))"
      by auto
  qed
  show "length sources = 1 \<and> int64 (eos_token_id tok) \<and> (\<forall>s. list_all int64 (tokenize tok s)) \<longrightarrow>
          (\<exists>dd. fst (preprocess_plain sep tok st sources) = Inr dd)"
  proof
    assume h: "length sources = 1 \<and> int64 (eos_token_id tok) \<and> (\<forall>s. list_all int64 (tokenize tok s))"
    with n obtain conv where cv: "convs = [conv]" by (cases convs) auto
    obtain st1 where p: "plain_conversations sep st sources = (Inr convs, st1)"
      using c by (cases "plain_conversations sep st sources") auto
    then have st1: "st1 = ?st1" by simp
    let ?ids = "map (\<lambda>prompt. tokenize tok prompt @ [eos_token_id tok]) convs"
    have m: "mask_targets tok st1 ?ids sources = Inr ?ids"
      using z st1 by (simp add: mask_targets_zero)
    have "list_all int64 (tokenize tok conv @ [eos_token_id tok])" using h by simp
    then have t: "torch_tensor ?ids = Inr ?ids" using cv by (simp add: torch_tensor_single)
    from p m t show "\<exists>dd. fst (preprocess_plain sep tok st sources) = Inr dd"
      by (simp add: preprocess_plain_def Let_def)
  qed
qed

theorem preprocess_plain_unmasked_witness:
  "length [0, 1::addr] = 2 \<and> tokenize char_tokenizer [] = []
   \<and> tokenized_len char_tokenizer
        (snd (preprocess_plain [CHR 0x0A] char_tokenizer sample_store [[0, 1]])) [0, 1] = 0
   \<and> fst (preprocess_plain [CHR 0x0A] char_tokenizer sample_store [[0, 1]])
       = Inr \<lparr>input_ids = [[97, 32, 99, 97, 116, 10, 2]], labels = [[97, 32, 99, 97, 116, 10, 2]]\<rparr>
   \<and> eos_token_id char_tokenizer \<noteq> IGNORE_INDEX
   \<and> (\<forall>s. IGNORE_INDEX \<notin> set (tokenize char_tokenizer s))
   \<and> int64 (eos_token_id char_tokenizer)
   \<and> (\<forall>s. list_all int64 (tokenize char_tokenizer s))
   \<and> IGNORE_INDEX \<notin> set [97, 32, 99, 97, 116, 10, 2]"
  using preprocess_plain_unmasked [of "[[0, 1]]" char_tokenizer "[CHR 0x0A]" sample_store]
        of_char_not_ignore of_char_int64
  by (simp add: preprocess_plain_def char_tokenizer_def sample_store_def blank_first_def
        tokenized_len_def torch_tensor_def IGNORE_INDEX_def int64_def)

text \<open>
  C2 as stated, for any tokenizer, fails: a tokenizer that puts a BOS id in
  front of every encoding gives a prefix of length 1, and \<open>preprocess_plain\<close>
  returns no labels.
\<close>

theorem preprocess_plain_bos_counterexample:
  "length [0, 1::addr] = 2
   \<and> tokenized_len bos_tokenizer
        (snd (preprocess_plain [CHR 0x0A] bos_tokenizer sample_store [[0, 1]])) [0, 1] = 1
   \<and> fst (preprocess_plain [CHR 0x0A] bos_tokenizer sample_store [[0, 1]]) = Inl TypeError"
  by (simp add: preprocess_plain_def bos_tokenizer_def sample_store_def blank_first_def
        tokenized_len_def)

section \<open>Properties of the dataset and of \<open>expand2square\<close>\<close>

text \<open>The background colour that \<open>__init__\<close> computes from the channel means.\<close>

lemma background_color_value: "background_color_of IMAGENET_MEAN = (123, 116, 103)"
  by (simp add: background_color_of_def IMAGENET_MEAN_def py_int_def)

subsection \<open>Claim C4\<close>

text \<open>
  C4.  When the processor's crop size is square, \<open>__init__\<close> returns a dataset
  whose \<open>list_data_dict\<close> is the input records that have the key \<open>image\<close>, in
  their order: its length is the number of such records, every retained
  record has the key, and no record without the key is retained.
\<close>

theorem dataset_init_keeps_image_records:
  assumes "crop_height proc = crop_width proc"
  shows "\<exists>ds. dataset_init tok p2s data proc = Inr ds
          \<and> list_data_dict ds = filter (\<lambda>item. item_image item \<noteq> None) data
          \<and> dataset_len ds = card {i. i < length data \<and> item_image (data ! i) \<noteq> None}
          \<and> (\<forall>item \<in> set (list_data_dict ds). item_image item \<noteq> None)
          \<and> (\<forall>item \<in> set data. item_image item = None \<longrightarrow> item \<notin> set (list_data_dict ds))"
  using assms
  by (simp add: dataset_init_def dataset_len_def Let_def length_filter_conv_card)

text \<open>The three sample records: the first and the third are kept.\<close>

theorem dataset_init_keeps_image_records_witness:
  "crop_height sample_processor = crop_width sample_processor
   \<and> map item_image (list_data_dict (projr (dataset_init char_tokenizer False sample_data sample_processor)))
       = [Some ''a.jpg'', Some ''b.jpg'']
   \<and> dataset_len (projr (dataset_init char_tokenizer False sample_data sample_processor)) = 2
   \<and> card {i. i < length sample_data \<and> item_image (sample_data ! i) \<noteq> None} = 2"
  using dataset_init_keeps_image_records [of sample_processor char_tokenizer False sample_data]
  by (auto simp: dataset_init_def dataset_len_def sample_data_def sample_processor_def Let_def)

subsection \<open>Claim C8\<close>

text \<open>
  C8.  \<open>expand2square\<close> returns a square image unchanged.  Otherwise the
  result is a square of side \<open>s = max(width, height)\<close> in the mode of the
  input; the input sits at the offset \<open>(ox, oy)\<close>, where \<open>ox = (s - width) div 2\<close>
  and \<open>oy = (s - height) div 2\<close>, every pixel of the input is there, and every
  other pixel has the background colour.  The padding before and after the
  image differ by at most one pixel, the extra pixel coming after.
\<close>

theorem expand2square_pads_centered:
  assumes "s = max (width img) (height img)"
      and "ox = (s - width img) div 2" and "oy = (s - height img) div 2"
      and "r = expand2square img c"
  shows "(width img = height img \<longrightarrow> r = img)
       \<and> (width img \<noteq> height img \<longrightarrow>
            width r = s \<and> height r = s \<and> mode r = mode img
          \<and> (\<forall>x y. pixel r x y =
                (if ox \<le> x \<and> x < ox + width img \<and> oy \<le> y \<and> y < oy + height img
                 then pixel img (x - ox) (y - oy) else c))
          \<and> (\<forall>x y. x < width img \<and> y < height img \<longrightarrow> pixel r (ox + x) (oy + y) = pixel img x y)
          \<and> ox + width img \<le> s \<and> oy + height img \<le> s
          \<and> ox \<le> s - width img - ox \<and> s - width img - ox \<le> ox + 1
          \<and> oy \<le> s - height img - oy \<and> s - height img - oy \<le> oy + 1)"
proof (intro conjI impI)
  assume "width img = height img"
  then show "r = img" using assms(4) by (simp add: expand2square_def)
next
  assume ne: "width img \<noteq> height img"
  show "width r = s" "height r = s" "mode r = mode img"
    using ne assms by (auto simp: expand2square_def paste_def Image_new_def)
  show "\<forall>x y. pixel r x y =
                (if ox \<le> x \<and> x < ox + width img \<and> oy \<le> y \<and> y < oy + height img
                 then pixel img (x - ox) (y - oy) else c)"
    using ne assms by (auto simp: expand2square_def paste_def Image_new_def)
  then show "\<forall>x y. x < width img \<and> y < height img \<longrightarrow> pixel r (ox + x) (oy + y) = pixel img x y"
    by simp
  show "ox + width img \<le> s" "oy + height img \<le> s"
       "ox \<le> s - width img - ox" "s - width img - ox \<le> ox + 1"
       "oy \<le> s - height img - oy" "s - height img - oy \<le> oy + 1"
    using assms(1-3) by (simp_all add: max_def) presburger+
qed

text \<open>
  The sample image, three wide and one high, on the background colour of the
  dataset: one row of background above and one below.
\<close>

theorem expand2square_pads_centered_witness:
  "width wide_image \<noteq> height wide_image
   \<and> width (expand2square wide_image (background_color_of IMAGENET_MEAN)) = 3
   \<and> height (expand2square wide_image (background_color_of IMAGENET_MEAN)) = 3
   \<and> pixel (expand2square wide_image (background_color_of IMAGENET_MEAN)) 2 0 = (123, 116, 103)
   \<and> pixel (expand2square wide_image (background_color_of IMAGENET_MEAN)) 2 1 = (2, 0, 0)
   \<and> pixel (expand2square wide_image (background_color_of IMAGENET_MEAN)) 2 2 = (123, 116, 103)"
  using expand2square_pads_centered [of 3 wide_image 0 1
          "expand2square wide_image (background_color_of IMAGENET_MEAN)"
          "background_color_of IMAGENET_MEAN"]
  by (simp add: wide_image_def background_color_value)

section \<open>Properties of \<open>copy.deepcopy\<close> and of \<open>__getitem__\<close>\<close>

text \<open>
  Copies are made at fresh addresses: with \<open>n0\<close> the first free address when
  the copy starts, every address of the memo and of the copy is at or above
  \<open>n0\<close>, and no dict below the first free address is written.
\<close>

lemma deepcopy_source_props:
  assumes "deepcopy_source memo st source = (source', memo', st')"
      and "n0 \<le> next_free st"
      and "\<forall>p \<in> set memo. n0 \<le> snd p \<and> snd p < next_free st"
  shows "next_free st \<le> next_free st'
       \<and> (\<forall>a < next_free st. objs st' a = objs st a)
       \<and> (\<forall>p \<in> set memo'. n0 \<le> snd p \<and> snd p < next_free st')
       \<and> (\<forall>a' \<in> set source'. n0 \<le> a' \<and> a' < next_free st')"
  using assms
proof (induction source arbitrary: memo st source' memo' st')
  case Nil
  then show ?case by simp
next
  case (Cons a source)
  show ?case
  proof (cases "map_of memo a")
    case (Some a')
    obtain src1 memo1 st1 where r: "deepcopy_source memo st source = (src1, memo1, st1)"
      by (cases "deepcopy_source memo st source") auto
    with Cons.prems(1) Some have eq: "source' = a' # src1" "memo' = memo1" "st' = st1" by auto
    from Cons.IH [OF r Cons.prems(2) Cons.prems(3)]
    have ih: "next_free st \<le> next_free st1"
       "\<forall>a < next_free st. objs st1 a = objs st a"
       "\<forall>p \<in> set memo1. n0 \<le> snd p \<and> snd p < next_free st1"
       "\<forall>a' \<in> set src1. n0 \<le> a' \<and> a' < next_free st1"
      by simp_all
    from Some have "(a, a') \<in> set memo" by (rule map_of_SomeD)
    with Cons.prems(3) have "n0 \<le> a' \<and> a' < next_free st" by force
    with ih eq show ?thesis by auto
  next
    case None
    let ?a' = "next_free st"
    let ?st1 = "st\<lparr>objs := (objs st)(?a' := objs st a), next_free := Suc ?a'\<rparr>"
    obtain src1 memo1 st2 where r: "deepcopy_source ((a, ?a') # memo) ?st1 source = (src1, memo1, st2)"
      by (cases "deepcopy_source ((a, ?a') # memo) ?st1 source") auto
    with Cons.prems(1) None have eq: "source' = ?a' # src1" "memo' = memo1" "st' = st2"
      by (auto simp: Let_def)
    have p2: "n0 \<le> next_free ?st1" using Cons.prems(2) by simp
    have p3: "\<forall>p \<in> set ((a, ?a') # memo). n0 \<le> snd p \<and> snd p < next_free ?st1"
      using Cons.prems(2,3) by auto
    from Cons.IH [OF r p2 p3]
    have ih: "next_free ?st1 \<le> next_free st2"
       "\<forall>b < next_free ?st1. objs st2 b = objs ?st1 b"
       "\<forall>p \<in> set memo1. n0 \<le> snd p \<and> snd p < next_free st2"
       "\<forall>a' \<in> set src1. n0 \<le> a' \<and> a' < next_free st2"
      by simp_all
    from ih(1) have le: "next_free st < next_free st2" by simp
    have "\<forall>b < next_free st. objs st2 b = objs st b"
    proof (intro allI impI)
      fix b assume b: "b < next_free st"
      then have "objs st2 b = objs ?st1 b" using ih(2) by simp
      also have "\<dots> = objs st b" using b by simp
      finally show "objs st2 b = objs st b" .
    qed
    with ih le eq Cons.prems(2) show ?thesis by auto
  qed
qed

lemma deepcopy_sources_props:
  assumes "deepcopy_sources memo st sources = (sources', memo', st')"
      and "n0 \<le> next_free st"
      and "\<forall>p \<in> set memo. n0 \<le> snd p \<and> snd p < next_free st"
  shows "next_free st \<le> next_free st'
       \<and> (\<forall>a < next_free st. objs st' a = objs st a)
       \<and> (\<forall>p \<in> set memo'. n0 \<le> snd p \<and> snd p < next_free st')
       \<and> (\<forall>a' \<in> set (concat sources'). n0 \<le> a' \<and> a' < next_free st')"
  using assms
proof (induction sources arbitrary: memo st sources' memo' st')
  case Nil
  then show ?case by simp
next
  case (Cons source sources)
  obtain src1 memo1 st1 where r1: "deepcopy_source memo st source = (src1, memo1, st1)"
    by (cases "deepcopy_source memo st source") auto
  obtain srcs2 memo2 st2 where r2: "deepcopy_sources memo1 st1 sources = (srcs2, memo2, st2)"
    by (cases "deepcopy_sources memo1 st1 sources") auto
  from Cons.prems(1) r1 r2 have eq: "sources' = src1 # srcs2" "memo' = memo2" "st' = st2" by auto
  from deepcopy_source_props [OF r1 Cons.prems(2) Cons.prems(3)]
  have s1: "next_free st \<le> next_free st1"
       "\<forall>a < next_free st. objs st1 a = objs st a"
       "\<forall>p \<in> set memo1. n0 \<le> snd p \<and> snd p < next_free st1"
       "\<forall>a' \<in> set src1. n0 \<le> a' \<and> a' < next_free st1"
    by simp_all
  from Cons.prems(2) s1(1) have n1: "n0 \<le> next_free st1" by simp
  from Cons.IH [OF r2 n1 s1(3)]
  have s2: "next_free st1 \<le> next_free st2"
       "\<forall>a < next_free st1. objs st2 a = objs st1 a"
       "\<forall>p \<in> set memo2. n0 \<le> snd p \<and> snd p < next_free st2"
       "\<forall>a' \<in> set (concat srcs2). n0 \<le> a' \<and> a' < next_free st2"
    by simp_all
  have "\<forall>a < next_free st. objs st2 a = objs st a"
  proof (intro allI impI)
    fix a assume a: "a < next_free st"
    with s1(1) have "a < next_free st1" by simp
    with s2(2) have "objs st2 a = objs st1 a" by simp
    with s1(2) a show "objs st2 a = objs st a" by simp
  qed
  moreover have "\<forall>a' \<in> set (concat (src1 # srcs2)). n0 \<le> a' \<and> a' < next_free st2"
    using s1(4) s2(1,4) by auto
  ultimately show ?case using s1(1) s2(1,3) eq by auto
qed

lemma deepcopy_props:
  assumes "deepcopy st sources = (copied, st1)"
  shows "next_free st \<le> next_free st1
       \<and> (\<forall>a < next_free st. objs st1 a = objs st a)
       \<and> (\<forall>a' \<in> set (concat copied). next_free st \<le> a' \<and> a' < next_free st1)"
proof -
  obtain srcs memo st' where r: "deepcopy_sources [] st sources = (srcs, memo, st')"
    by (cases "deepcopy_sources [] st sources") auto
  with assms have eq: "copied = srcs" "st1 = st'" by (simp_all add: deepcopy_def)
  have "\<forall>p \<in> set ([] :: (addr \<times> addr) list). next_free st \<le> snd p \<and> snd p < next_free st" by simp
  from deepcopy_sources_props [OF r le_refl this] eq show ?thesis by simp
qed

lemma getitem_store_cases:
  "snd (getitem e self st i) = st
   \<or> (\<exists>sources copied st1.
          deepcopy st sources = (copied, st1)
        \<and> snd (getitem e self st i) =
            snd (preprocess_plain (conv_sep e) (ds_tokenizer self)
                   (preprocess_multimodal st1 copied) copied))"
proof (cases "py_index (list_data_dict self) i")
  case (Inl err)
  then show ?thesis by (simp add: getitem_def)
next
  case (Inr record_i)
  show ?thesis
  proof (cases "item_image record_i")
    case None
    with Inr show ?thesis by (simp add: getitem_def)
  next
    case (Some image_file)
    show ?thesis
    proof (cases "img_open e (os_path_join (image_root self) image_file)")
      case (Inl err)
      with Inr Some show ?thesis by (simp add: getitem_def)
    next
      case opened: (Inr image0)
      obtain copied st1 where d: "deepcopy st [conversations record_i] = (copied, st1)"
        by (cases "deepcopy st [conversations record_i]") auto
      have "snd (getitem e self st i) =
            snd (preprocess_plain (conv_sep e) (ds_tokenizer self)
                   (preprocess_multimodal st1 copied) copied)"
        using Inr Some opened d
        by (auto simp: getitem_def Let_def split: prod.splits sum.splits)
      with d show ?thesis by blast
    qed
  qed
qed

lemma processed_copy_frame:
  assumes "deepcopy st sources = (copied, st1)" and "a < next_free st"
  shows "objs (snd (preprocess_plain sep tok (preprocess_multimodal st1 copied) copied)) a = objs st a"
    and "next_free st \<le> next_free (snd (preprocess_plain sep tok (preprocess_multimodal st1 copied) copied))"
proof -
  from deepcopy_props [OF assms(1)]
  have n: "next_free st \<le> next_free st1"
    and o: "\<forall>a < next_free st. objs st1 a = objs st a"
    and c: "\<forall>a' \<in> set (concat copied). next_free st \<le> a' \<and> a' < next_free st1"
    by simp_all
  have notin: "a \<notin> set (concat copied)"
  proof
    assume "a \<in> set (concat copied)"
    with c have "next_free st \<le> a" by blast
    with assms(2) show False by simp
  qed
  let ?st2 = "preprocess_multimodal st1 copied"
  have "objs (snd (preprocess_plain sep tok ?st2 copied)) a
        = objs (snd (plain_conversations sep ?st2 copied)) a"
    by (simp only: preprocess_plain_store)
  also have "\<dots> = objs ?st2 a" using notin by (rule plain_conversations_other)
  also have "\<dots> = objs st1 a" using notin by (rule preprocess_multimodal_other)
  also have "\<dots> = objs st a" using o assms(2) by simp
  finally show "objs (snd (preprocess_plain sep tok ?st2 copied)) a = objs st a" .
  show "next_free st \<le> next_free (snd (preprocess_plain sep tok ?st2 copied))"
    using n by (simp only: preprocess_plain_store plain_conversations_next_free
                  preprocess_multimodal_next_free)
qed

lemma getitem_frame:
  assumes "a < next_free st"
  shows "objs (snd (getitem e self st i)) a = objs st a"
    and "next_free st \<le> next_free (snd (getitem e self st i))"
  using getitem_store_cases [of e self st i] processed_copy_frame [OF _ assms]
  by auto

subsection \<open>Claim C9\<close>

text \<open>
  C9.  The records of \<open>list_data_dict\<close> are values that \<open>__getitem__\<close> does not
  return changed; their turns are the dicts of the store that exist before
  the call, the addresses below \<open>next_free\<close>.  Every call of \<open>__getitem__\<close>,
  whether it returns or raises, leaves each of these dicts as it was: the
  writes of \<open>preprocess_multimodal\<close> and \<open>preprocess_plain\<close> go to the dicts
  that \<open>copy.deepcopy\<close> has made.  So a second call, on any index, finds the
  same stored text.
\<close>

theorem getitem_leaves_stored_conversations:
  assumes "a < next_free st"
  shows "objs (snd (getitem e self st i)) a = objs st a
       \<and> next_free st \<le> next_free (snd (getitem e self st i))
       \<and> objs (snd (getitem e self (snd (getitem e self st i)) j)) a = objs st a"
proof -
  let ?st' = "snd (getitem e self st i)"
  have 1: "objs ?st' a = objs st a" and 2: "next_free st \<le> next_free ?st'"
    using assms by (rule getitem_frame)+
  from assms 2 have "a < next_free ?st'" by simp
  then have "objs (snd (getitem e self ?st' j)) a = objs ?st' a" by (rule getitem_frame)
  with 1 2 show ?thesis by simp
qed

text \<open>The sample dataset, written out.\<close>

lemma sample_dataset_eq:
  "sample_dataset =
     \<lparr>ds_tokenizer = char_tokenizer, pad2square = True, background_color = (123, 116, 103),
      image_root = ''/mnt/bn/vgfm2/test_dit/pretraining_data'',
      list_data_dict = [\<lparr>item_image = Some ''a.jpg'', conversations = [0, 1]\<rparr>,
                        \<lparr>item_image = Some ''b.jpg'', conversations = [4, 5]\<rparr>],
      ds_processor = sample_processor\<rparr>"
  by (simp add: sample_dataset_def dataset_init_def sample_data_def sample_processor_def
        background_color_value)

text \<open>
  The first record of the sample dataset: the call returns the example, the
  stored prompt turn still holds its placeholder, and the copy of it, at the
  address 6, is blank.
\<close>

theorem getitem_leaves_stored_conversations_witness:
  "(0::addr) < next_free sample_store
   \<and> fst (getitem sample_env sample_dataset sample_store 0)
       = Inr \<lparr>inst_input_ids = [97, 32, 99, 97, 116, 10, 2],
              inst_labels = [97, 32, 99, 97, 116, 10, 2],
              inst_image = Present (Some (Tensor [3, 1, 1] [123, 116, 103]))\<rparr>
   \<and> objs (snd (getitem sample_env sample_dataset sample_store 0)) 0 = objs sample_store 0
   \<and> svalue (objs sample_store 0) = ''<image>'' @ [CHR 0x0A] @ ''describe ''
   \<and> next_free (snd (getitem sample_env sample_dataset sample_store 0)) = 8
   \<and> svalue (objs (snd (getitem sample_env sample_dataset sample_store 0)) 6) = []
   \<and> objs (snd (getitem sample_env sample_dataset
                   (snd (getitem sample_env sample_dataset sample_store 0)) 0)) 0
       = objs sample_store 0"
  using getitem_leaves_stored_conversations [of 0 sample_store sample_env sample_dataset 0 0]
  by (simp add: getitem_def sample_dataset_eq sample_env_def sample_store_def py_index_def
        os_path_join_def deepcopy_def preprocess_sentence_def DEFAULT_IMAGE_TOKEN_def
        strip_def lstrip_def rstrip_def isspace_def preprocess_plain_def blank_first_def
        tokenized_len_def torch_tensor_def int64_def char_tokenizer_def sample_processor_def
        expand2square_def paste_def Image_new_def wide_image_def Let_def)

section \<open>Properties of \<open>collate_fn\<close>\<close>




text \<open>An int of magnitude up to \<open>2 ^ 53\<close> is a double and an int64 value.\<close>

lemma py_float_exact: "\<bar>v\<bar> \<le> 2 ^ 53 \<Longrightarrow> py_float v = Inr v"
  by (simp add: py_float_def round_to_double_def)










lemma instance_images_present:
  "map inst_image insts = map (\<lambda>t. Present (Some t)) ts \<Longrightarrow> instance_images insts = Inr (map Some ts)"
  by (induction insts arbitrary: ts) auto

lemma same_shapes_tensors:
  "ts \<noteq> [] \<Longrightarrow> same_shapes (map Some ts) \<longleftrightarrow> (\<forall>t \<in> set ts. tshape t = tshape (hd ts))"
  by (cases ts) (auto simp: same_shapes_def list_all_iff)








subsection \<open>Claim C10\<close>




subsection \<open>Claim C1\<close>




subsection \<open>Claim C5\<close>

text \<open>
  C5.  Let \<open>collate_fn\<close> return a batch for examples that all carry an image
  tensor, \<open>ts\<close> being these tensors in order.  If all of them have the shape
  of the first, \<open>images\<close> is the one tensor \<open>torch.stack\<close> makes of them: its
  shape is the number of examples followed by the common shape, so
  \<open>(N, C, H, W)\<close> for images of shape \<open>(C, H, W)\<close>.  Otherwise \<open>images\<close> is
  the list of the tensors, unstacked.
\<close>

theorem collate_fn_images:
  assumes "collate_fn instances tok T = Inr b"
      and "map inst_image instances = map (\<lambda>t. Present (Some t)) ts"
  shows "((\<forall>t \<in> set ts. tshape t = tshape (hd ts)) \<longrightarrow>
            images b = Some (Stacked (torch_stack ts))
          \<and> tshape (torch_stack ts) = length instances # tshape (hd ts)
          \<and> tdata (torch_stack ts) = concat (map tdata ts))
       \<and> (\<not> (\<forall>t \<in> set ts. tshape t = tshape (hd ts)) \<longrightarrow>
            images b = Some (Unstacked (map Some ts)))"
proof -
  have ne: "instances \<noteq> []"
  proof
    assume "instances = []"
    then have none: "pad_sequence (map inst_input_ids instances) (pad_token_id tok) \<noteq> Inr ids" for ids
      by (simp add: pad_sequence_def split: sum.splits)
    have "collate_fn instances tok T \<noteq> Inr b"
    proof (cases "pad_sequence (map inst_input_ids instances) (pad_token_id tok)")
      case (Inl e)
      then show ?thesis by (simp add: collate_fn_def)
    next
      case (Inr ids)
      with none show ?thesis by blast
    qed
    with assms(1) show False by simp
  qed
  have len: "length ts = length instances"
    using assms(2) by (rule map_eq_imp_length_eq [symmetric])
  with ne have tne: "ts \<noteq> []" by auto
  obtain inst insts where ci: "instances = inst # insts" using ne by (cases instances) auto
  obtain t ts' where ct: "ts = t # ts'" using tne by (cases ts) auto
  from assms(2) ci ct have hd: "inst_image (hd instances) = Present (Some (hd ts))" by simp
  have im: "instance_images instances = Inr (map Some ts)"
    using assms(2) by (rule instance_images_present)
  have m: "map the (map Some ts) = ts" by (simp add: comp_def)
  obtain ids0 where p1: "pad_sequence (map inst_input_ids instances) (pad_token_id tok) = Inr ids0"
    using assms(1) by (cases "pad_sequence (map inst_input_ids instances) (pad_token_id tok)")
      (simp_all add: collate_fn_def)
  obtain labs0 where p2: "pad_sequence (map inst_labels instances) IGNORE_INDEX = Inr labs0"
    using assms(1) p1 by (cases "pad_sequence (map inst_labels instances) IGNORE_INDEX")
      (simp_all add: collate_fn_def)
  obtain ids1 labs1 where
    p3: "pad_to_max_length T (pad_token_id tok) ids0 labs0 = Inr (ids1, labs1)"
    using assms(1) p1 p2 by (cases "pad_to_max_length T (pad_token_id tok) ids0 labs0")
      (auto simp: collate_fn_def)
  have sh: "tshape (torch_stack ts) = length instances # tshape (hd ts)"
    using len by (simp add: torch_stack_def)
  have da: "tdata (torch_stack ts) = concat (map tdata ts)"
    by (simp add: torch_stack_def)
  note iff = same_shapes_tensors [OF tne]
  obtain attn where
    p4: "tensor_ne (map (py_slice_to (min T (model_max_length tok))) ids1) (pad_token_id tok)
           = Inr attn"
    using assms(1) p1 p2 p3
    by (cases "tensor_ne (map (py_slice_to (min T (model_max_length tok))) ids1) (pad_token_id tok)")
      (auto simp: collate_fn_def Let_def)
  show ?thesis
  proof (cases "same_shapes (map Some ts)")
    case True
    with assms(1) have "images b = Some (Stacked (torch_stack ts))"
      by (auto simp: collate_fn_def p1 p2 p3 p4 hd im m Let_def)
    moreover from True iff have "\<forall>t \<in> set ts. tshape t = tshape (hd ts)" by blast
    ultimately show ?thesis using sh da by blast
  next
    case False
    with assms(1) have "images b = Some (Unstacked (map Some ts))"
      by (auto simp: collate_fn_def p1 p2 p3 p4 hd im m Let_def)
    moreover from False iff have "\<not> (\<forall>t \<in> set ts. tshape t = tshape (hd ts))" by blast
    ultimately show ?thesis by blast
  qed
qed

text \<open>Two images of one shape are stacked; two of different shapes are not.\<close>

theorem collate_fn_images_witness:
  "collate_fn [ex_a, ex_b] char_tokenizer 4
       = Inr \<lparr>batch_input_ids = [[7, 8, 0, 0], [7, 8, 9, 0]],
              batch_labels = [[7, 8, - 100, - 100], [7, 8, 9, - 100]],
              attention_mask = [[True, True, False, False], [True, True, True, False]],
              images = Some (Stacked (Tensor [2, 1, 1, 2] [5, 6, 3, 4]))\<rparr>
   \<and> map inst_image [ex_a, ex_b]
       = map (\<lambda>t. Present (Some t)) [Tensor [1, 1, 2] [5, 6], Tensor [1, 1, 2] [3, 4]]
   \<and> torch_stack [Tensor [1, 1, 2] [5, 6], Tensor [1, 1, 2] [3, 4 :: int]]
       = Tensor [2, 1, 1, 2] [5, 6, 3, 4]
   \<and> images (projr (collate_fn [ex_a, ex_c] char_tokenizer 4))
       = Some (Unstacked [Some (Tensor [1, 1, 2] [5, 6]), Some (Tensor [1, 2, 1] [3, 4])])"
  using
    collate_fn_images [where instances = "[ex_a, ex_b]" and tok = char_tokenizer and T = 4
      and ts = "[Tensor [1, 1, 2] [5, 6], Tensor [1, 1, 2] [3, 4]]"
      and b = "projr (collate_fn [ex_a, ex_b] char_tokenizer 4)"]
    collate_fn_images [where instances = "[ex_a, ex_c]" and tok = char_tokenizer and T = 4
      and ts = "[Tensor [1, 1, 2] [5, 6], Tensor [1, 2, 1] [3, 4]]"
      and b = "projr (collate_fn [ex_a, ex_c] char_tokenizer 4)"]
  by (simp add: collate_fn_def ex_a_def ex_b_def ex_c_def char_tokenizer_def pad_sequence_def
        max_len_def pad_to_max_length_def pad_tube_def tensor_ne_def py_float_exact int64_def
        shape_last_def py_slice_to_def same_shapes_def
        torch_stack_def IGNORE_INDEX_def numeral_2_eq_2 numeral_3_eq_3)

end
